theory Spec2Isabelle
  imports Main "HOL-Library.Word"
begin

section \<open>guestfish \<open>alloc\<close> and \<open>sparse\<close>: fish/alloc.c\<close>

text \<open>
  A shallow embedding of \<^verbatim>\<open>fish/alloc.c\<close>: the size parser \<^verbatim>\<open>parse_size\<close> and the two
  command handlers \<^verbatim>\<open>do_alloc\<close> and \<open>do_sparse\<close>. The C library and the libguestfs
  handle are the environment of that file. Their calls are modelled after ISO C and POSIX;
  whether a call succeeds is not decided by alloc.c and is a parameter (\<open>env\<close> below).
\<close>

subsection \<open>Machine types\<close>

text \<open>
  \<^verbatim>\<open>uint64_t\<close> and \<^verbatim>\<open>size_t\<close> are 64-bit words read by \<open>unat\<close>. \<^verbatim>\<open>off_t\<close> is the signed
  64-bit file offset, a word read by \<open>sint\<close>; the conversion from \<^verbatim>\<open>uint64_t\<close> keeps the
  bits (GCC's rule for an out-of-range value).
\<close>

type_synonym u64 = "64 word"
type_synonym off_t = "64 word"
type_synonym size_t = "64 word"
type_synonym byte = "8 word"
type_synonym path = string

subsection \<open>The state the handlers act on\<close>

text \<open>Diagnostics written to the error stream, one constructor per message of alloc.c.\<close>

datatype diag =
    UsageAlloc          \<comment> \<open>use 'alloc file size' to create an image\<close>
  | UsageSparse         \<comment> \<open>use 'sparse file size' to create a sparse image\<close>
  | BadSize string      \<comment> \<open>could not parse size specification '%s'\<close>
  | AfterLaunch         \<comment> \<open>can't allocate or add disks after launching\<close>
  | Perror string       \<comment> \<open>\<^verbatim>\<open>perror (s)\<close>\<close>

text \<open>The file-system calls a handler makes, in the order it makes them.\<close>

datatype fsop =
    OpOpen path
  | OpFallocate path int
  | OpLseek path int
  | OpWrite path nat
  | OpClose path
  | OpUnlink path

record world =
  files :: "path \<rightharpoonup> byte list"   \<comment> \<open>regular files and their contents\<close>
  fs_trace :: "fsop list"             \<comment> \<open>file-system calls made so far\<close>
  drives :: "path list"               \<comment> \<open>drives added to the guestfs handle \<^verbatim>\<open>g\<close>\<close>
  stderr :: "diag list"               \<comment> \<open>lines written to the error stream\<close>

definition eprint :: "diag \<Rightarrow> world \<Rightarrow> world" where
  "eprint d w = w\<lparr>stderr := stderr w @ [d]\<rparr>"

definition traced :: "fsop \<Rightarrow> world \<Rightarrow> world" where
  "traced e w = w\<lparr>fs_trace := fs_trace w @ [e]\<rparr>"

definition world0 :: world where
  "world0 = \<lparr>files = Map.empty, fs_trace = [], drives = [], stderr = []\<rparr>"

subsection \<open>\<^verbatim>\<open>sscanf\<close> with the formats \<^verbatim>\<open>"%" SCNu64 "%c"\<close> and \<^verbatim>\<open>"%" SCNu64\<close>\<close>

text \<open>
  ISO C 7.21.6.2: the \<^verbatim>\<open>u\<close> directive skips white space, then matches an optionally signed
  decimal integer as \<^verbatim>\<open>strtoul\<close> with base 10 does; \<^verbatim>\<open>%c\<close> takes the next character and
  skips nothing; what follows the last directive is not read. A C string holds no NUL.
\<close>

definition isspace :: "char \<Rightarrow> bool" where
  "isspace c = (c \<in> set [CHR '' '', CHR 0x09, CHR 0x0A, CHR 0x0B, CHR 0x0C, CHR 0x0D])"

definition isdigit :: "char \<Rightarrow> bool" where
  "isdigit c = (c \<in> set ''0123456789'')"

definition digit_val :: "char \<Rightarrow> nat" where
  "digit_val c = of_char c - 48"

definition dec_value :: "string \<Rightarrow> nat" where
  "dec_value ds = foldl (\<lambda>v c. 10 * v + digit_val c) 0 ds"

text \<open>
  \<^verbatim>\<open>strtoull\<close> on a sign and a digit run: the value, negated in the unsigned type after a
  minus sign. A value above \<^verbatim>\<open>ULLONG_MAX\<close> is undefined for \<^verbatim>\<open>sscanf\<close> in ISO C; glibc
  stores \<^verbatim>\<open>ULLONG_MAX\<close>, which is what is written here.
\<close>

definition strtoull :: "bool \<Rightarrow> string \<Rightarrow> u64" where
  "strtoull neg ds =
     (if dec_value ds > 2 ^ 64 - 1 then - 1
      else if neg then - word_of_nat (dec_value ds)
      else word_of_nat (dec_value ds))"

text \<open>The \<^verbatim>\<open>u\<close> directive: the converted value and the input left unread, or no match.\<close>

definition scan_u64 :: "string \<Rightarrow> (u64 \<times> string) option" where
  "scan_u64 str =
     (let s1 = dropWhile isspace str;
          neg = (s1 \<noteq> [] \<and> hd s1 = CHR ''-'');
          s2 = (if s1 \<noteq> [] \<and> (hd s1 = CHR ''-'' \<or> hd s1 = CHR ''+'') then tl s1 else s1);
          ds = takeWhile isdigit s2
      in if ds = [] then None else Some (strtoull neg ds, dropWhile isdigit s2))"

text \<open>
  What a \<^verbatim>\<open>sscanf\<close> call assigned. \<open>Scan0\<close> stands for the return values 0 and \<^verbatim>\<open>EOF\<close>,
  which \<^verbatim>\<open>parse_size\<close> does not tell apart.
\<close>

datatype scanned = Scan0 | Scan1 u64 | Scan2 u64 char

definition sscanf_u64_c :: "string \<Rightarrow> scanned" where
  "sscanf_u64_c str =
     (case scan_u64 str of
        None \<Rightarrow> Scan0
      | Some (v, rest) \<Rightarrow> (case rest of [] \<Rightarrow> Scan1 v | c # _ \<Rightarrow> Scan2 v c))"

definition sscanf_u64 :: "string \<Rightarrow> scanned" where
  "sscanf_u64 str = (case scan_u64 str of None \<Rightarrow> Scan0 | Some (v, _) \<Rightarrow> Scan1 v)"

subsection \<open>\<^verbatim>\<open>parse_size\<close>\<close>

text \<open>The \<^verbatim>\<open>switch (type)\<close>: the new \<^verbatim>\<open>size\<close> (here \<open>sz\<close>, as \<open>size\<close> is a constant of HOL), or \<open>None\<close> for the \<^verbatim>\<open>default\<close> label.\<close>

definition switch_type :: "char \<Rightarrow> u64 \<Rightarrow> u64 option" where
  "switch_type type sz =
     (if type = CHR ''k'' \<or> type = CHR ''K'' then Some (sz * 1024)
      else if type = CHR ''m'' \<or> type = CHR ''M'' then Some (sz * (1024 * 1024))
      else if type = CHR ''g'' \<or> type = CHR ''G'' then Some (sz * (1024 * 1024 * 1024))
      else if type = CHR ''t'' \<or> type = CHR ''T'' then
        Some (sz * (1024 * 1024 * 1024 * 1024))
      else if type = CHR ''p'' \<or> type = CHR ''P'' then
        Some (sz * (1024 * 1024 * 1024 * 1024 * 1024))
      else if type = CHR ''e'' \<or> type = CHR ''E'' then
        Some (sz * (1024 * 1024 * 1024 * 1024 * 1024 * 1024))
      else if type = CHR ''s'' then Some (sz * 512)
      else None)"

text \<open>
  \<^verbatim>\<open>parse_size (str, &size_rtn)\<close>: the arguments are the string, the value \<open>old\<close> that
  \<^verbatim>\<open>*size_rtn\<close> holds before the call and the world; the result is the return value, the
  value of \<^verbatim>\<open>*size_rtn\<close> after the call and the world after it.
\<close>

definition parse_size :: "string \<Rightarrow> off_t \<Rightarrow> world \<Rightarrow> int \<times> off_t \<times> world" where
  "parse_size str old w =
     (case sscanf_u64_c str of
        Scan2 sz type \<Rightarrow>
          (case switch_type type sz of
             Some sz' \<Rightarrow> (0, ucast sz', w)
           | None \<Rightarrow> (- 1, old, eprint (BadSize str) w))
      | _ \<Rightarrow>
          (case sscanf_u64 str of
             Scan1 sz \<Rightarrow> (0, ucast (sz * 1024), w)
           | _ \<Rightarrow> (- 1, old, eprint (BadSize str) w)))"

subsection \<open>The environment: POSIX calls and the guestfs handle\<close>

text \<open>
  What alloc.c cannot decide: whether each call succeeds. \<open>fallocate_errno\<close> is what
  \<^verbatim>\<open>posix_fallocate\<close> returns, which is 0 or an error number, never \<open>-1\<close> (POSIX: it returns
  zero on success, or an error number on failure; \<^verbatim>\<open>errno\<close> is not set).
  \<open>write_room t\<close> answers the \<^verbatim>\<open>write\<close> made after \<open>t\<close> earlier file-system calls:
  \<open>None\<close> is the return value \<open>-1\<close>, \<open>Some m\<close> takes at most \<open>m\<close> bytes (a short
  write when \<open>m\<close> is less than the count asked for).
\<close>

record env =
  is_config :: bool             \<comment> \<open>\<^verbatim>\<open>guestfs_is_config (g)\<close>\<close>
  open_ok :: bool
  fallocate_errno :: nat
  write_room :: "nat \<Rightarrow> nat option"
  lseek_ok :: bool
  close_ok :: bool
  unlink_ok :: bool
  add_drive_ok :: bool          \<comment> \<open>\<^verbatim>\<open>guestfs_add_drive (g, path)\<close> succeeds\<close>

record fd =
  fd_path :: path
  fd_pos :: nat

definition BUFSIZ :: nat where
  "BUFSIZ = 8192"

definition EINVAL :: nat where
  "EINVAL = 22"

definition contents :: "world \<Rightarrow> path \<Rightarrow> byte list" where
  "contents w p = (case files w p of None \<Rightarrow> [] | Some cs \<Rightarrow> cs)"

text \<open>Bytes \<open>bs\<close> stored at offset \<open>pos\<close>; a gap after the old end reads as zeros.\<close>

definition pwrite :: "byte list \<Rightarrow> nat \<Rightarrow> byte list \<Rightarrow> byte list" where
  "pwrite cs pos bs =
     take pos cs @ replicate (pos - length cs) 0 @ bs @ drop (pos + length bs) cs"

text \<open>\<^verbatim>\<open>open (p, O_WRONLY|O_CREAT|O_NOCTTY|O_TRUNC, 0666)\<close>; \<open>None\<close> is the return value \<open>-1\<close>.\<close>

definition c_open :: "env \<Rightarrow> path \<Rightarrow> world \<Rightarrow> fd option \<times> world" where
  "c_open env p w =
     (let w1 = traced (OpOpen p) w
      in if open_ok env
         then (Some \<lparr>fd_path = p, fd_pos = 0\<rparr>, w1\<lparr>files := (files w1)(p \<mapsto> [])\<rparr>)
         else (None, w1))"

text \<open>\<^verbatim>\<open>posix_fallocate (fd, 0, len)\<close>: the bytes below \<open>len\<close> exist afterwards.\<close>

definition posix_fallocate :: "env \<Rightarrow> fd \<Rightarrow> off_t \<Rightarrow> world \<Rightarrow> int \<times> world" where
  "posix_fallocate env f len w =
     (let w1 = traced (OpFallocate (fd_path f) (sint len)) w;
          cs = contents w1 (fd_path f)
      in if sint len < 0 then (int EINVAL, w1)
         else if fallocate_errno env \<noteq> 0 then (int (fallocate_errno env), w1)
         else (0, w1\<lparr>files := (files w1)
                 (fd_path f \<mapsto> cs @ replicate (nat (sint len) - length cs) 0)\<rparr>))"

text \<open>
  \<^verbatim>\<open>write (fd, buffer, n)\<close> with a buffer of zeros. A call that writes no byte leaves the
  file as it is, also after a seek past its end.
\<close>

definition c_write :: "env \<Rightarrow> fd \<Rightarrow> nat \<Rightarrow> world \<Rightarrow> int \<times> fd \<times> world" where
  "c_write env f n w =
     (let w1 = traced (OpWrite (fd_path f) n) w
      in case write_room env (length (fs_trace w)) of
           None \<Rightarrow> (- 1, f, w1)
         | Some m \<Rightarrow>
             (let k = min m n
              in (int k, f\<lparr>fd_pos := fd_pos f + k\<rparr>,
                  if k = 0 then w1
                  else w1\<lparr>files := (files w1)
                    (fd_path f \<mapsto> pwrite (contents w1 (fd_path f)) (fd_pos f) (replicate k 0))\<rparr>)))"

text \<open>\<^verbatim>\<open>lseek (fd, off, SEEK_SET)\<close>: a negative offset is \<^verbatim>\<open>EINVAL\<close>.\<close>

definition c_lseek :: "env \<Rightarrow> fd \<Rightarrow> off_t \<Rightarrow> world \<Rightarrow> int \<times> fd \<times> world" where
  "c_lseek env f off w =
     (let w1 = traced (OpLseek (fd_path f) (sint off)) w
      in if sint off < 0 \<or> \<not> lseek_ok env then (- 1, f, w1)
         else (sint off, f\<lparr>fd_pos := nat (sint off)\<rparr>, w1))"

definition c_close :: "env \<Rightarrow> fd \<Rightarrow> world \<Rightarrow> int \<times> world" where
  "c_close env f w = (if close_ok env then 0 else - 1, traced (OpClose (fd_path f)) w)"

definition c_unlink :: "env \<Rightarrow> path \<Rightarrow> world \<Rightarrow> int \<times> world" where
  "c_unlink env p w =
     (let w1 = traced (OpUnlink p) w
      in if unlink_ok env then (0, w1\<lparr>files := (files w1)(p := None)\<rparr>) else (- 1, w1))"

definition guestfs_is_config :: "env \<Rightarrow> bool" where
  "guestfs_is_config env = is_config env"

definition guestfs_add_drive :: "env \<Rightarrow> path \<Rightarrow> world \<Rightarrow> int \<times> world" where
  "guestfs_add_drive env p w =
     (if add_drive_ok env then (0, w\<lparr>drives := drives w @ [p]\<rparr>) else (- 1, w))"

subsection \<open>\<^verbatim>\<open>do_alloc\<close>\<close>

text \<open>
  The loop of the build without \<^verbatim>\<open>HAVE_POSIX_FALLOCATE\<close>. It need not end (a \<^verbatim>\<open>write\<close>
  may return 0 for ever), so its result is an option. \<open>False\<close> in the result says that the
  \<^verbatim>\<open>return -1\<close> inside the loop was taken.
\<close>

partial_function (option) write_loop ::
  "env \<Rightarrow> path \<Rightarrow> fd \<Rightarrow> size_t \<Rightarrow> world \<Rightarrow> (bool \<times> fd \<times> world) option" where
  "write_loop env p f remaining w =
     (if remaining > 0 then
        (let n = (if unat remaining > BUFSIZ then BUFSIZ else unat remaining) in
         case c_write env f n w of (r, f1, w1) \<Rightarrow>
           if r = - 1 then
             Some (False, f1,
               snd (c_unlink env p (snd (c_close env f1 (eprint (Perror ''write'') w1)))))
           else write_loop env p f1 (remaining - word_of_int r) w1)
      else Some (True, f, w))"

text \<open>
  \<^verbatim>\<open>do_alloc (cmd, argc, argv)\<close>, with \<open>argc = length argv\<close>. \<open>have_posix_fallocate\<close> is the
  macro \<^verbatim>\<open>HAVE_POSIX_FALLOCATE\<close> of config.h. The local \<^verbatim>\<open>size\<close> is not initialised; it is
  0 here and is never read before \<^verbatim>\<open>parse_size\<close> has set it.
\<close>

definition do_alloc :: "bool \<Rightarrow> env \<Rightarrow> string list \<Rightarrow> world \<Rightarrow> (int \<times> world) option" where
  "do_alloc have_posix_fallocate env argv w =
     (if int (length argv) \<noteq> 2 then Some (- 1, eprint UsageAlloc w)
      else case parse_size (argv ! 1) 0 w of (r, sz, w1) \<Rightarrow>
        if r = - 1 then Some (- 1, w1)
        else if \<not> guestfs_is_config env then Some (- 1, eprint AfterLaunch w1)
        else (case c_open env (argv ! 0) w1 of
          (None, w2) \<Rightarrow> Some (- 1, eprint (Perror (argv ! 0)) w2)
        | (Some f, w2) \<Rightarrow>
            (case (if have_posix_fallocate then
                     (case posix_fallocate env f sz w2 of (e, w3) \<Rightarrow>
                        if e = - 1 then
                          Some (False, f, snd (c_unlink env (argv ! 0)
                            (snd (c_close env f (eprint (Perror ''fallocate'') w3)))))
                        else Some (True, f, w3))
                   else write_loop env (argv ! 0) f (ucast sz) w2) of
               None \<Rightarrow> None
             | Some (False, f3, w3) \<Rightarrow> Some (- 1, w3)
             | Some (True, f3, w3) \<Rightarrow>
                 (case c_close env f3 w3 of (r4, w4) \<Rightarrow>
                    if r4 = - 1 then
                      Some (- 1, snd (c_unlink env (argv ! 0) (eprint (Perror (argv ! 0)) w4)))
                    else case guestfs_add_drive env (argv ! 0) w4 of (r5, w5) \<Rightarrow>
                      if r5 = - 1 then Some (- 1, snd (c_unlink env (argv ! 0) w5))
                      else Some (0, w5)))))"

subsection \<open>\<^verbatim>\<open>do_sparse\<close>\<close>

text \<open>
  \<^verbatim>\<open>do_sparse (cmd, argc, argv)\<close>. \<^verbatim>\<open>size - 1\<close> is the subtraction of 64-bit words; C leaves it
  undefined for the least \<^verbatim>\<open>off_t\<close> only. The results of \<^verbatim>\<open>close\<close> and \<^verbatim>\<open>unlink\<close> on the error
  paths are dropped, as in the source.
\<close>

definition do_sparse :: "env \<Rightarrow> string list \<Rightarrow> world \<Rightarrow> int \<times> world" where
  "do_sparse env argv w =
     (if int (length argv) \<noteq> 2 then (- 1, eprint UsageSparse w)
      else case parse_size (argv ! 1) 0 w of (r, sz, w1) \<Rightarrow>
        if r = - 1 then (- 1, w1)
        else if \<not> guestfs_is_config env then (- 1, eprint AfterLaunch w1)
        else (case c_open env (argv ! 0) w1 of
          (None, w2) \<Rightarrow> (- 1, eprint (Perror (argv ! 0)) w2)
        | (Some f, w2) \<Rightarrow>
            (case c_lseek env f (sz - 1) w2 of (r3, f3, w3) \<Rightarrow>
               if r3 = - 1 then
                 (- 1, snd (c_unlink env (argv ! 0)
                    (snd (c_close env f3 (eprint (Perror ''lseek'') w3)))))
               else case c_write env f3 1 w3 of (r4, f4, w4) \<Rightarrow>
                 if r4 \<noteq> 1 then
                   (- 1, snd (c_unlink env (argv ! 0)
                      (snd (c_close env f4 (eprint (Perror ''write'') w4)))))
                 else case c_close env f4 w4 of (r5, w5) \<Rightarrow>
                   if r5 = - 1 then
                     (- 1, snd (c_unlink env (argv ! 0) (eprint (Perror (argv ! 0)) w5)))
                   else case guestfs_add_drive env (argv ! 0) w5 of (r6, w6) \<Rightarrow>
                     if r6 = - 1 then (- 1, snd (c_unlink env (argv ! 0) w6))
                     else (0, w6))))"

subsection \<open>An environment for examples\<close>

text \<open>
  Every call succeeds, and a \<^verbatim>\<open>write\<close> takes at most 5000 bytes, so that a request of
  \<open>BUFSIZ\<close> bytes is written short. The examples below change single fields of it.
\<close>

definition env_ok :: env where
  "env_ok = \<lparr>is_config = True, open_ok = True, fallocate_errno = 0,
     write_room = (\<lambda>t. Some 5000), lseek_ok = True, close_ok = True, unlink_ok = True,
     add_drive_ok = True\<rparr>"

definition ENOSPC :: nat where
  "ENOSPC = 28"

subsection \<open>The grammar of the size specification, as the specification words it\<close>

text \<open>
  Not taken from alloc.c: the two forms of section 4.1 of the specification, digits
  followed by one suffix character, or digits alone. It is compared with \<open>parse_size\<close>
  below.
\<close>

definition spec_grammar :: "string \<Rightarrow> bool" where
  "spec_grammar str =
     ((str \<noteq> [] \<and> list_all isdigit str)
      \<or> (butlast str \<noteq> [] \<and> list_all isdigit (butlast str)
          \<and> last str \<in> set ''kKmMgGtTpPeEs''))"

text \<open>
  The byte count the specification gives a string of the grammar: the value of the digits
  times the factor of the suffix character, or times 1024 without one. A natural number,
  with no wrap-around.
\<close>

definition spec_factor :: "char \<Rightarrow> nat" where
  "spec_factor c =
     (if c \<in> set ''kK'' then 1024
      else if c \<in> set ''mM'' then 1024 ^ 2
      else if c \<in> set ''gG'' then 1024 ^ 3
      else if c \<in> set ''tT'' then 1024 ^ 4
      else if c \<in> set ''pP'' then 1024 ^ 5
      else if c \<in> set ''eE'' then 1024 ^ 6
      else 512)"

definition spec_value :: "string \<Rightarrow> nat" where
  "spec_value str =
     (if list_all isdigit str then dec_value str * 1024
      else dec_value (butlast str) * spec_factor (last str))"

section \<open>Properties of \<^verbatim>\<open>parse_size\<close>\<close>

subsection \<open>The scanner\<close>

lemmas parse_defs = parse_size_def sscanf_u64_c_def sscanf_u64_def scan_u64_def isspace_def
  isdigit_def strtoull_def dec_value_def digit_val_def switch_type_def

lemma isdigit_not_isspace: "isdigit c \<Longrightarrow> \<not> isspace c"
  by (auto simp: isdigit_def isspace_def)

lemma isdigit_not_sign: "isdigit c \<Longrightarrow> c \<noteq> CHR ''-'' \<and> c \<noteq> CHR ''+''"
  by (auto simp: isdigit_def)

lemma sign_not_isspace: "c = CHR ''-'' \<or> c = CHR ''+'' \<Longrightarrow> \<not> isspace c"
  by (auto simp: isspace_def)

lemma scan_u64_digits:
  assumes "ds \<noteq> []" and "\<forall>c\<in>set ds. isdigit c" and "rest = [] \<or> \<not> isdigit (hd rest)"
  shows "scan_u64 (ds @ rest) = Some (strtoull False ds, rest)"
proof -
  obtain d ds' where ds: "ds = d # ds'" using assms(1) by (cases ds) auto
  have d: "isdigit d" using assms(2) ds by simp
  have tw: "takeWhile isdigit (ds @ rest) = ds"
    using assms(2,3) by (cases rest) (simp_all add: takeWhile_append2)
  have dw: "dropWhile isdigit (ds @ rest) = rest"
    using assms(2,3) by (cases rest) (simp_all add: dropWhile_append2)
  have sp: "dropWhile isspace (ds @ rest) = ds @ rest"
    using d ds by (simp add: isdigit_not_isspace)
  have hd: "hd (ds @ rest) = d" using ds by simp
  show ?thesis
    unfolding scan_u64_def sp Let_def
    using tw dw assms(1) isdigit_not_sign[OF d] by (simp add: hd)
qed

lemma strtoull_in_range: "dec_value ds < 2 ^ 64 \<Longrightarrow> strtoull False ds = word_of_nat (dec_value ds)"
  by (simp add: strtoull_def)

lemma parse_size_scan:
  "parse_size str old w =
     (case scan_u64 str of
        None \<Rightarrow> (- 1, old, eprint (BadSize str) w)
      | Some (v, rest) \<Rightarrow>
          (case rest of
             [] \<Rightarrow> (0, v * 1024, w)
           | c # _ \<Rightarrow>
               (case switch_type c v of
                  Some v' \<Rightarrow> (0, v', w)
                | None \<Rightarrow> (- 1, old, eprint (BadSize str) w))))"
  by (simp add: parse_size_def sscanf_u64_c_def sscanf_u64_def split: option.splits list.splits)


lemma parse_size_digits_char:
  assumes "ds \<noteq> []" and "\<forall>d\<in>set ds. isdigit d" and "dec_value ds < 2 ^ 64"
    and "\<not> isdigit c"
  shows "parse_size (ds @ [c]) old w =
      (case switch_type c (word_of_nat (dec_value ds)) of
         Some v' \<Rightarrow> (0, v', w)
       | None \<Rightarrow> (- 1, old, eprint (BadSize (ds @ [c])) w))"
proof -
  have "scan_u64 (ds @ [c]) = Some (word_of_nat (dec_value ds), [c])"
    using scan_u64_digits[OF assms(1,2), of "[c]"] strtoull_in_range[OF assms(3)] assms(4)
    by simp
  then show ?thesis by (simp add: parse_size_scan)
qed

lemma parse_size_digits:
  assumes "ds \<noteq> []" and "\<forall>d\<in>set ds. isdigit d" and "dec_value ds < 2 ^ 64"
  shows "parse_size ds old w = (0, word_of_nat (dec_value ds) * 1024, w)"
proof -
  have "scan_u64 ds = Some (word_of_nat (dec_value ds), [])"
    using scan_u64_digits[OF assms(1,2), of "[]"] strtoull_in_range[OF assms(3)] by simp
  then show ?thesis by (simp add: parse_size_scan)
qed

lemmas digit_evals = isdigit_def dec_value_def digit_val_def


lemma switch_type_None: "c \<notin> set ''kKmMgGtTpPeEs'' \<Longrightarrow> switch_type c n = None"
  by (simp add: switch_type_def)

lemma letter_not_digit: "c \<in> set ''kKmMgGtTpPeEs'' \<Longrightarrow> \<not> isdigit c"
  unfolding isdigit_def by auto


lemma switch_type_letter: "c \<in> set ''kKmMgGtTpPeEs'' \<Longrightarrow> switch_type c n \<noteq> None"
  by (auto simp: switch_type_def)

lemma scan_u64_decomp:
  assumes ws: "\<forall>c\<in>set ws. isspace c"
    and sg: "sg = [] \<or> sg = ''+'' \<or> sg = ''-''"
    and ds: "ds \<noteq> []" "\<forall>d\<in>set ds. isdigit d"
    and rest: "rest = [] \<or> \<not> isdigit (hd rest)"
  shows "scan_u64 (ws @ sg @ ds @ rest) = Some (strtoull (sg = ''-'') ds, rest)"
proof -
  obtain d ds' where dsc: "ds = d # ds'" using ds(1) by (cases ds) auto
  have d: "isdigit d" using ds(2) dsc by simp
  have tw: "takeWhile isdigit (ds @ rest) = ds"
    using ds(2) rest by (cases rest) (simp_all add: takeWhile_append2)
  have dw: "dropWhile isdigit (ds @ rest) = rest"
    using ds(2) rest by (cases rest) (simp_all add: dropWhile_append2)
  have sp: "dropWhile isspace (ws @ sg @ ds @ rest) = sg @ ds @ rest"
    using ws sg d dsc by (auto simp: dropWhile_append2 isdigit_not_isspace sign_not_isspace)
  show ?thesis
    unfolding scan_u64_def sp Let_def
    using sg tw dw ds(1) isdigit_not_sign[OF d] by (auto simp: dsc)
qed

lemma scan_u64_Some_decomp:
  assumes "scan_u64 str = Some (v, rest)"
  shows "\<exists>ws sg ds. str = ws @ sg @ ds @ rest \<and> (\<forall>c\<in>set ws. isspace c)
           \<and> (sg = [] \<or> sg = ''+'' \<or> sg = ''-'') \<and> ds \<noteq> [] \<and> (\<forall>d\<in>set ds. isdigit d)"
proof -
  define s1 where "s1 = dropWhile isspace str"
  define sg where "sg = (if s1 \<noteq> [] \<and> (hd s1 = CHR ''-'' \<or> hd s1 = CHR ''+'') then [hd s1] else [])"
  define s2 where "s2 = (if s1 \<noteq> [] \<and> (hd s1 = CHR ''-'' \<or> hd s1 = CHR ''+'') then tl s1 else s1)"
  have 1: "str = takeWhile isspace str @ s1" by (simp add: s1_def)
  have 2: "s1 = sg @ s2" by (simp add: sg_def s2_def)
  have 3: "s2 = takeWhile isdigit s2 @ dropWhile isdigit s2" by simp
  have 4: "takeWhile isdigit s2 \<noteq> []" and 5: "rest = dropWhile isdigit s2"
    using assms unfolding scan_u64_def Let_def s1_def[symmetric] s2_def[symmetric]
    by (auto split: if_splits)
  have 6: "sg = [] \<or> sg = ''+'' \<or> sg = ''-''" by (auto simp: sg_def)
  have 7: "\<forall>c\<in>set (takeWhile isspace str). isspace c" by (auto dest: set_takeWhileD)
  have 8: "\<forall>d\<in>set (takeWhile isdigit s2). isdigit d" by (auto dest: set_takeWhileD)
  have "str = takeWhile isspace str @ sg @ takeWhile isdigit s2 @ rest"
    using 1 2 3 5 by metis
  with 4 6 7 8 show ?thesis by blast
qed

subsection \<open>Suffixed sizes\<close>

text \<open>
  C1. A run of digits whose value fits 64 bits, followed by one suffix character: \<open>k\<close> or
  \<open>K\<close> multiplies the value by 1024, \<open>m\<close> or \<open>M\<close> by 1024^2, \<open>g\<close> or \<open>G\<close> by 1024^3, \<open>t\<close>
  or \<open>T\<close> by 1024^4, \<open>p\<close> or \<open>P\<close> by 1024^5, \<open>e\<close> or \<open>E\<close> by 1024^6 and \<open>s\<close> by 512, in
  64-bit unsigned arithmetic. Any other character after the digits, upper-case \<open>S\<close>
  among them, makes \<open>parse_size\<close> return \<open>-1\<close> with the format diagnostic.
\<close>

theorem parse_size_suffix:
  assumes "ds \<noteq> []" and "\<forall>d\<in>set ds. isdigit d" and "dec_value ds < 2 ^ 64"
  shows "(c = CHR ''k'' \<or> c = CHR ''K'' \<longrightarrow>
            parse_size (ds @ [c]) old w = (0, word_of_nat (dec_value ds) * 1024, w))
       \<and> (c = CHR ''m'' \<or> c = CHR ''M'' \<longrightarrow>
            parse_size (ds @ [c]) old w = (0, word_of_nat (dec_value ds) * 1024 ^ 2, w))
       \<and> (c = CHR ''g'' \<or> c = CHR ''G'' \<longrightarrow>
            parse_size (ds @ [c]) old w = (0, word_of_nat (dec_value ds) * 1024 ^ 3, w))
       \<and> (c = CHR ''t'' \<or> c = CHR ''T'' \<longrightarrow>
            parse_size (ds @ [c]) old w = (0, word_of_nat (dec_value ds) * 1024 ^ 4, w))
       \<and> (c = CHR ''p'' \<or> c = CHR ''P'' \<longrightarrow>
            parse_size (ds @ [c]) old w = (0, word_of_nat (dec_value ds) * 1024 ^ 5, w))
       \<and> (c = CHR ''e'' \<or> c = CHR ''E'' \<longrightarrow>
            parse_size (ds @ [c]) old w = (0, word_of_nat (dec_value ds) * 1024 ^ 6, w))
       \<and> (c = CHR ''s'' \<longrightarrow>
            parse_size (ds @ [c]) old w = (0, word_of_nat (dec_value ds) * 512, w))
       \<and> (c \<notin> set ''kKmMgGtTpPeEs'' \<and> \<not> isdigit c \<longrightarrow>
            parse_size (ds @ [c]) old w = (- 1, old, eprint (BadSize (ds @ [c])) w))
       \<and> parse_size (ds @ ''S'') old w = (- 1, old, eprint (BadSize (ds @ ''S'')) w)"
proof -
  let ?v = "word_of_nat (dec_value ds) :: u64"
  have ps: "parse_size (ds @ [c]) old w =
      (case switch_type c ?v of Some v' \<Rightarrow> (0, v', w)
       | None \<Rightarrow> (- 1, old, eprint (BadSize (ds @ [c])) w))" if "\<not> isdigit c" for c
    using assms that by (rule parse_size_digits_char)
  have 1: "c = CHR ''k'' \<or> c = CHR ''K'' \<longrightarrow>
            parse_size (ds @ [c]) old w = (0, ?v * 1024, w)"
    by (auto simp: ps isdigit_def switch_type_def)
  have 2: "c = CHR ''m'' \<or> c = CHR ''M'' \<longrightarrow>
            parse_size (ds @ [c]) old w = (0, ?v * 1024 ^ 2, w)"
    by (auto simp: ps isdigit_def switch_type_def)
  have 3: "c = CHR ''g'' \<or> c = CHR ''G'' \<longrightarrow>
            parse_size (ds @ [c]) old w = (0, ?v * 1024 ^ 3, w)"
    by (auto simp: ps isdigit_def switch_type_def)
  have 4: "c = CHR ''t'' \<or> c = CHR ''T'' \<longrightarrow>
            parse_size (ds @ [c]) old w = (0, ?v * 1024 ^ 4, w)"
    by (auto simp: ps isdigit_def switch_type_def)
  have 5: "c = CHR ''p'' \<or> c = CHR ''P'' \<longrightarrow>
            parse_size (ds @ [c]) old w = (0, ?v * 1024 ^ 5, w)"
    by (auto simp: ps isdigit_def switch_type_def)
  have 6: "c = CHR ''e'' \<or> c = CHR ''E'' \<longrightarrow>
            parse_size (ds @ [c]) old w = (0, ?v * 1024 ^ 6, w)"
    by (auto simp: ps isdigit_def switch_type_def)
  have 7: "c = CHR ''s'' \<longrightarrow> parse_size (ds @ [c]) old w = (0, ?v * 512, w)"
    by (auto simp: ps isdigit_def switch_type_def)
  have 8: "c \<notin> set ''kKmMgGtTpPeEs'' \<and> \<not> isdigit c \<longrightarrow>
            parse_size (ds @ [c]) old w = (- 1, old, eprint (BadSize (ds @ [c])) w)"
    by (auto simp: ps switch_type_def)
  have 9: "parse_size (ds @ ''S'') old w = (- 1, old, eprint (BadSize (ds @ ''S'')) w)"
    by (simp add: ps isdigit_def switch_type_def)
  from 1 2 3 4 5 6 7 8 9 show ?thesis by blast
qed

theorem parse_size_suffix_witness:
  "parse_size ''1K'' 0 world0 = (0, 1024, world0)
   \<and> parse_size ''1k'' 0 world0 = (0, 1024, world0)
   \<and> parse_size ''2M'' 0 world0 = (0, 2 * 1024 ^ 2, world0)
   \<and> parse_size ''1s'' 0 world0 = (0, 512, world0)
   \<and> parse_size ''1S'' 0 world0 = (- 1, 0, eprint (BadSize ''1S'') world0)"
  using parse_size_suffix[of "''1''" "CHR ''K''" 0 world0]
    parse_size_suffix[of "''1''" "CHR ''k''" 0 world0]
    parse_size_suffix[of "''2''" "CHR ''M''" 0 world0]
    parse_size_suffix[of "''1''" "CHR ''s''" 0 world0]
  by (simp add: digit_evals)

subsection \<open>Sizes without a suffix\<close>

text \<open>
  C2. A run of digits alone, whose value fits 64 bits, yields that value times 1024; the
  string \<open>10\<close> yields 10240.
\<close>

theorem parse_size_bare:
  assumes "ds \<noteq> []" and "\<forall>d\<in>set ds. isdigit d" and "dec_value ds < 2 ^ 64"
  shows "parse_size ds old w = (0, word_of_nat (dec_value ds) * 1024, w)"
  using assms by (rule parse_size_digits)

theorem parse_size_bare_witness: "parse_size ''10'' 0 world0 = (0, 10240, world0)"
  using parse_size_bare[of "''10''" 0 world0] by (simp add: digit_evals)

subsection \<open>Which strings are rejected, and the byte count of the accepted ones\<close>

lemma sint_of_nat_small:
  assumes "n < 2 ^ 63"
  shows "sint (word_of_nat n :: u64) = int n"
proof -
  have "signed_take_bit 63 (int n) = int n"
    using assms by (intro signed_take_bit_int_eq_self) (simp_all add: of_nat_less_iff[of n "2 ^ 63", where 'a = int, simplified])
  then show ?thesis by (simp add: signed_of_nat)
qed

lemma switch_type_spec_factor:
  "c \<in> set ''kKmMgGtTpPeEs'' \<Longrightarrow>
     switch_type c n = Some (n * word_of_nat (spec_factor c))"
  by (auto simp: switch_type_def spec_factor_def)

lemma spec_factor_pos: "0 < spec_factor c"
  by (simp add: spec_factor_def)

lemma parse_size_spec_grammar:
  assumes "spec_grammar str"
  shows "\<exists>v. parse_size str old w = (0, v, w)
           \<and> (spec_value str < 2 ^ 63 \<longrightarrow> sint v = int (spec_value str))"
proof (cases "str \<noteq> [] \<and> list_all isdigit str")
  case True
  then have sc: "scan_u64 (str @ []) = Some (strtoull False str, [])"
    by (intro scan_u64_digits) (auto simp: list_all_iff)
  have ps: "parse_size str old w = (0, strtoull False str * 1024, w)"
    using sc by (simp add: parse_size_scan)
  have "sint (strtoull False str * 1024) = int (spec_value str)" if lt: "spec_value str < 2 ^ 63"
  proof -
    have sv: "spec_value str = dec_value str * 1024" using True by (simp add: spec_value_def)
    with lt have "dec_value str < 2 ^ 64" by simp
    then have "strtoull False str * 1024 = word_of_nat (dec_value str * 1024)"
      by (simp add: strtoull_in_range)
    with lt sv show ?thesis by (simp only: sint_of_nat_small)
  qed
  with ps show ?thesis by simp
next
  case False
  with assms have b: "butlast str \<noteq> []" "list_all isdigit (butlast str)"
      "last str \<in> set ''kKmMgGtTpPeEs''"
    by (auto simp: spec_grammar_def)
  then have ne: "str \<noteq> []" by auto
  have nd: "\<not> isdigit (last str)" using b(3) by (rule letter_not_digit)
  have nall: "\<not> list_all isdigit str"
    using nd ne by (auto simp: list_all_iff)
  have "scan_u64 (butlast str @ [last str]) = Some (strtoull False (butlast str), [last str])"
    using b(1,2) nd by (intro scan_u64_digits) (auto simp: list_all_iff)
  then have sc: "scan_u64 str = Some (strtoull False (butlast str), [last str])"
    using ne by simp
  let ?f = "word_of_nat (spec_factor (last str)) :: u64"
  have ps: "parse_size str old w = (0, strtoull False (butlast str) * ?f, w)"
    using sc switch_type_spec_factor[OF b(3)] by (simp add: parse_size_scan)
  have "sint (strtoull False (butlast str) * ?f) = int (spec_value str)"
    if lt: "spec_value str < 2 ^ 63"
  proof -
    have sv: "spec_value str = dec_value (butlast str) * spec_factor (last str)"
      using nall by (simp add: spec_value_def)
    have "dec_value (butlast str) * 1 \<le> dec_value (butlast str) * spec_factor (last str)"
      using spec_factor_pos[of "last str"] by (intro mult_le_mono2) simp
    then have "dec_value (butlast str) \<le> spec_value str" using sv by simp
    with lt have "dec_value (butlast str) < 2 ^ 64" by simp
    then have "strtoull False (butlast str) * ?f =
        word_of_nat (dec_value (butlast str) * spec_factor (last str))"
      by (simp add: strtoull_in_range)
    with lt sv show ?thesis by (simp only: sint_of_nat_small)
  qed
  with ps show ?thesis by simp
qed

text \<open>
  C3 as stated does not hold, in two places. \<open>parse_size\<close> does not fail on every string
  outside the two forms of the grammar: \<^verbatim>\<open>sscanf\<close> does not look at what follows the
  suffix character, so \<open>1kB\<close> is read as \<open>1k\<close>. And a string of the grammar need not
  give a non-negative byte count: \<open>8E\<close> is 2^63, which the \<^verbatim>\<open>off_t\<close> result holds as -2^63.
\<close>

theorem parse_size_grammar_counterexample:
  "\<not> spec_grammar ''1kB'' \<and> parse_size ''1kB'' 0 world0 = (0, 1024, world0)
   \<and> spec_grammar ''8E'' \<and> fst (parse_size ''8E'' 0 world0) = 0
   \<and> sint (fst (snd (parse_size ''8E'' 0 world0))) = - (2 ^ 63)"
  by (simp add: spec_grammar_def parse_defs)

text \<open>
  C3, as amended. \<open>parse_size\<close> fails exactly when the string is not made of: optional
  white space, an optional sign, a non-empty run of digits, and then either nothing or a
  remainder that starts with one of the suffix characters (the remainder after that
  character is ignored). It returns 0 or \<open>-1\<close>. Every string of the two forms of the
  grammar is accepted, and when the product of its digits and its factor is below 2^63
  the byte count returned is that product, which is not negative.
\<close>

theorem parse_size_fails_iff:
  "(fst (parse_size str old w) = - 1 \<longleftrightarrow>
      \<not> (\<exists>ws sg ds rest. str = ws @ sg @ ds @ rest \<and> (\<forall>c\<in>set ws. isspace c)
            \<and> (sg = [] \<or> sg = ''+'' \<or> sg = ''-'') \<and> ds \<noteq> [] \<and> (\<forall>d\<in>set ds. isdigit d)
            \<and> (rest = [] \<or> hd rest \<in> set ''kKmMgGtTpPeEs'')))
   \<and> (fst (parse_size str old w) \<noteq> - 1 \<longrightarrow> fst (parse_size str old w) = 0)
   \<and> (spec_grammar str \<longrightarrow>
        (\<exists>v. parse_size str old w = (0, v, w)
           \<and> (spec_value str < 2 ^ 63 \<longrightarrow> 0 \<le> sint v \<and> sint v = int (spec_value str))))"
proof (intro conjI)
  let ?L = "set ''kKmMgGtTpPeEs''"
  let ?D = "\<exists>ws sg ds rest. str = ws @ sg @ ds @ rest \<and> (\<forall>c\<in>set ws. isspace c)
            \<and> (sg = [] \<or> sg = ''+'' \<or> sg = ''-'') \<and> ds \<noteq> [] \<and> (\<forall>d\<in>set ds. isdigit d)
            \<and> (rest = [] \<or> hd rest \<in> ?L)"
  have ok: "fst (parse_size str old w) = 0"
    if "scan_u64 str = Some (v, rest)" and "rest = [] \<or> hd rest \<in> ?L" for v rest
  proof (cases rest)
    case Nil
    with that show ?thesis by (simp add: parse_size_scan)
  next
    case (Cons c cs)
    with that(2) have "switch_type c v \<noteq> None" by (simp only: list.sel switch_type_letter list.simps simp_thms)
    with that(1) Cons show ?thesis by (auto simp: parse_size_scan)
  qed
  have fwd: "fst (parse_size str old w) = 0" if ?D
  proof -
    from that obtain ws sg ds rest where s: "str = ws @ sg @ ds @ rest"
      and h: "\<forall>c\<in>set ws. isspace c" "sg = [] \<or> sg = ''+'' \<or> sg = ''-''" "ds \<noteq> []"
        "\<forall>d\<in>set ds. isdigit d" and r: "rest = [] \<or> hd rest \<in> ?L"
      by blast
    from r have "rest = [] \<or> \<not> isdigit (hd rest)"
    proof
      assume "rest = []"
      then show ?thesis by (rule disjI1)
    next
      assume "hd rest \<in> ?L"
      then have "\<not> isdigit (hd rest)" by (rule letter_not_digit)
      then show ?thesis by (rule disjI2)
    qed
    from scan_u64_decomp[OF h this] s
    have "scan_u64 str = Some (strtoull (sg = ''-'') ds, rest)" by simp
    then show ?thesis using r by (rule ok)
  qed
  have bwd: ?D if "fst (parse_size str old w) \<noteq> - 1"
  proof -
    from that obtain v rest where sc: "scan_u64 str = Some (v, rest)"
      and r: "rest = [] \<or> switch_type (hd rest) v \<noteq> None"
      by (auto simp: parse_size_scan split: option.splits list.splits)
    from r have "rest = [] \<or> hd rest \<in> ?L"
    proof
      assume "rest = []"
      then show ?thesis by (rule disjI1)
    next
      assume "switch_type (hd rest) v \<noteq> None"
      then have "hd rest \<in> ?L" by (rule contrapos_np) (rule switch_type_None)
      then show ?thesis by (rule disjI2)
    qed
    with scan_u64_Some_decomp[OF sc] show ?thesis by blast
  qed
  show "fst (parse_size str old w) = - 1 \<longleftrightarrow> \<not> ?D"
  proof
    assume m: "fst (parse_size str old w) = - 1"
    show "\<not> ?D"
    proof
      assume ?D
      then have "fst (parse_size str old w) = 0" by (rule fwd)
      with m show False by simp
    qed
  next
    assume n: "\<not> ?D"
    show "fst (parse_size str old w) = - 1"
    proof (rule ccontr)
      assume "fst (parse_size str old w) \<noteq> - 1"
      then have ?D by (rule bwd)
      with n show False by (rule notE)
    qed
  qed
  show "fst (parse_size str old w) \<noteq> - 1 \<longrightarrow> fst (parse_size str old w) = 0"
  proof
    assume "fst (parse_size str old w) \<noteq> - 1"
    then have ?D by (rule bwd)
    then show "fst (parse_size str old w) = 0" by (rule fwd)
  qed
  show "spec_grammar str \<longrightarrow>
        (\<exists>v. parse_size str old w = (0, v, w)
           \<and> (spec_value str < 2 ^ 63 \<longrightarrow> 0 \<le> sint v \<and> sint v = int (spec_value str)))"
  proof
    assume "spec_grammar str"
    from parse_size_spec_grammar[OF this, of old w] obtain v where
      "parse_size str old w = (0, v, w)"
      "spec_value str < 2 ^ 63 \<longrightarrow> sint v = int (spec_value str)"
      by blast
    then have "parse_size str old w = (0, v, w)
           \<and> (spec_value str < 2 ^ 63 \<longrightarrow> 0 \<le> sint v \<and> sint v = int (spec_value str))"
      by simp
    then show "\<exists>v. parse_size str old w = (0, v, w)
           \<and> (spec_value str < 2 ^ 63 \<longrightarrow> 0 \<le> sint v \<and> sint v = int (spec_value str))"
      by (rule exI)
  qed
qed

theorem parse_size_fails_iff_witness:
  "fst (parse_size ''abc'' 0 world0) = - 1
   \<and> \<not> (\<exists>ws sg ds rest. ''abc'' = ws @ sg @ ds @ rest \<and> (\<forall>c\<in>set ws. isspace c)
            \<and> (sg = [] \<or> sg = ''+'' \<or> sg = ''-'') \<and> ds \<noteq> [] \<and> (\<forall>d\<in>set ds. isdigit d)
            \<and> (rest = [] \<or> hd rest \<in> set ''kKmMgGtTpPeEs''))
   \<and> spec_grammar ''10k''
   \<and> (\<exists>v. parse_size ''10k'' 0 world0 = (0, v, world0) \<and> 0 \<le> sint v \<and> sint v = 10240)"
proof -
  have a: "fst (parse_size ''abc'' 0 world0) = - 1"
    by (simp add: parse_defs)
  have g: "spec_grammar ''10k''"
    by (simp add: spec_grammar_def isdigit_def)
  have v: "spec_value ''10k'' = 10240"
    by (simp add: spec_value_def spec_factor_def digit_evals)
  from a parse_size_fails_iff[of "''abc''" 0 world0]
  have n: "\<not> (\<exists>ws sg ds rest. ''abc'' = ws @ sg @ ds @ rest \<and> (\<forall>c\<in>set ws. isspace c)
            \<and> (sg = [] \<or> sg = ''+'' \<or> sg = ''-'') \<and> ds \<noteq> [] \<and> (\<forall>d\<in>set ds. isdigit d)
            \<and> (rest = [] \<or> hd rest \<in> set ''kKmMgGtTpPeEs''))"
    by blast
  from g parse_size_fails_iff[of "''10k''" 0 world0]
  have "\<exists>v. parse_size ''10k'' 0 world0 = (0, v, world0)
      \<and> (spec_value ''10k'' < 2 ^ 63 \<longrightarrow> 0 \<le> sint v \<and> sint v = int (spec_value ''10k''))"
    by blast
  then have "\<exists>v. parse_size ''10k'' 0 world0 = (0, v, world0) \<and> 0 \<le> sint v \<and> sint v = 10240"
    by (simp add: v)
  with a n g show ?thesis by blast
qed

subsection \<open>Overflow of the multiplication\<close>



subsection \<open>The output location on failure\<close>

text \<open>
  C10. When \<open>parse_size\<close> does not return 0 it returns \<open>-1\<close>, \<^verbatim>\<open>*size_rtn\<close> holds what it
  held before the call, and the only effect is the diagnostic.
\<close>

theorem parse_size_failure_keeps_size_rtn:
  assumes "parse_size str old w = (r, v, w')" and "r \<noteq> 0"
  shows "r = - 1 \<and> v = old \<and> w' = eprint (BadSize str) w"
  using assms by (auto simp: parse_size_scan split: option.splits list.splits)

theorem parse_size_failure_keeps_size_rtn_witness:
  "parse_size ''abc'' 7 world0 = (- 1, 7, eprint (BadSize ''abc'') world0)"
  using parse_size_failure_keeps_size_rtn[of "''abc''" 7 world0 "fst (parse_size ''abc'' 7 world0)"
      "fst (snd (parse_size ''abc'' 7 world0))" "snd (snd (parse_size ''abc'' 7 world0))"]
  by (simp add: parse_defs)

section \<open>Properties of \<^verbatim>\<open>do_alloc\<close> and \<^verbatim>\<open>do_sparse\<close>\<close>

subsection \<open>The calls of the environment\<close>

lemmas sys_defs = c_open_def c_close_def c_unlink_def c_lseek_def c_write_def
  posix_fallocate_def guestfs_is_config_def guestfs_add_drive_def traced_def eprint_def
  contents_def pwrite_def

lemma parse_size_cases:
  "(\<exists>sz. parse_size str old w = (0, sz, w))
   \<or> parse_size str old w = (- 1, old, eprint (BadSize str) w)"
  by (simp add: parse_size_scan split: option.splits list.splits)

lemma parse_size_ok:
  assumes "fst (parse_size str old w) = 0"
  shows "\<exists>sz. parse_size str old w = (0, sz, w)"
  using parse_size_cases[of str old w] assms by auto

lemmas run_defs = do_alloc_def do_sparse_def parse_defs sys_defs env_ok_def world0_def Let_def

lemma c_write_fail:
  assumes "write_room env (length (fs_trace w)) = None"
  shows "c_write env f n w = (- 1, f, traced (OpWrite (fd_path f) n) w)"
  using assms by (simp add: c_write_def)


lemma cleanup_trace:
  "fs_trace (snd (c_unlink env p (snd (c_close env f (eprint d w))))) =
     fs_trace w @ [OpClose (fd_path f), OpUnlink p]"
  by (simp add: c_unlink_def c_close_def eprint_def traced_def Let_def)

lemma cleanup_files:
  "files (snd (c_unlink env p (snd (c_close env f (eprint d w))))) =
     (if unlink_ok env then (files w)(p := None) else files w)"
  by (simp add: c_unlink_def c_close_def eprint_def traced_def Let_def)

lemma unlink_trace: "fs_trace (snd (c_unlink env p w)) = fs_trace w @ [OpUnlink p]"
  by (simp add: c_unlink_def traced_def Let_def)

lemma unlink_files:
  "files (snd (c_unlink env p w)) = (if unlink_ok env then (files w)(p := None) else files w)"
  by (simp add: c_unlink_def traced_def Let_def)

lemma c_write_Some:
  assumes "write_room env (length (fs_trace w)) = Some m"
  shows "\<exists>f1 w1. c_write env f n w = (int (min m n), f1, w1)"
  using assms by (simp add: c_write_def Let_def)

lemma posix_fallocate_not_minus1: "fst (posix_fallocate env f len w) \<noteq> - 1"
  by (simp add: posix_fallocate_def Let_def)

lemma sint_pred:
  fixes sz :: off_t
  assumes "0 < sint sz"
  shows "sint (sz - 1) = sint sz - 1"
proof -
  have "sint sz < 2 ^ 63" using sint_lt[of sz] by simp
  with assms have "signed_take_bit 63 (sint sz - 1) = sint sz - 1"
    by (intro signed_take_bit_int_eq_self) simp_all
  then show ?thesis by (simp add: sint_word_ariths)
qed

subsection \<open>The handlers once the file is open\<close>

text \<open>
  With two arguments, a size that parses, an open configuration and a successful
  \<^verbatim>\<open>open\<close>, each handler is the code that follows its \<^verbatim>\<open>open\<close> call.
\<close>

lemma do_sparse_after_open:
  assumes "length argv = 2" and "parse_size (argv ! 1) 0 w = (0, sz, w)"
    and "is_config env" and "open_ok env"
  shows "do_sparse env argv w =
     (let p = argv ! 0;
          f = \<lparr>fd_path = p, fd_pos = 0\<rparr>;
          w2 = (traced (OpOpen p) w)\<lparr>files := (files w)(p \<mapsto> [])\<rparr>
      in case c_lseek env f (sz - 1) w2 of (r3, f3, w3) \<Rightarrow>
           if r3 = - 1 then
             (- 1, snd (c_unlink env p (snd (c_close env f3 (eprint (Perror ''lseek'') w3)))))
           else case c_write env f3 1 w3 of (r4, f4, w4) \<Rightarrow>
             if r4 \<noteq> 1 then
               (- 1, snd (c_unlink env p (snd (c_close env f4 (eprint (Perror ''write'') w4)))))
             else case c_close env f4 w4 of (r5, w5) \<Rightarrow>
               if r5 = - 1 then (- 1, snd (c_unlink env p (eprint (Perror p) w5)))
               else case guestfs_add_drive env p w5 of (r6, w6) \<Rightarrow>
                 if r6 = - 1 then (- 1, snd (c_unlink env p w6)) else (0, w6))"
  using assms
  by (simp add: do_sparse_def guestfs_is_config_def c_open_def traced_def Let_def)

lemma do_alloc_after_open:
  assumes "length argv = 2" and "parse_size (argv ! 1) 0 w = (0, sz, w)"
    and "is_config env" and "open_ok env"
  shows "do_alloc have_posix_fallocate env argv w =
     (let p = argv ! 0;
          f = \<lparr>fd_path = p, fd_pos = 0\<rparr>;
          w2 = (traced (OpOpen p) w)\<lparr>files := (files w)(p \<mapsto> [])\<rparr>
      in case (if have_posix_fallocate then
                 (case posix_fallocate env f sz w2 of (e, w3) \<Rightarrow>
                    if e = - 1 then
                      Some (False, f, snd (c_unlink env p
                        (snd (c_close env f (eprint (Perror ''fallocate'') w3)))))
                    else Some (True, f, w3))
               else write_loop env p f (ucast sz) w2) of
           None \<Rightarrow> None
         | Some (False, f3, w3) \<Rightarrow> Some (- 1, w3)
         | Some (True, f3, w3) \<Rightarrow>
             (case c_close env f3 w3 of (r4, w4) \<Rightarrow>
                if r4 = - 1 then Some (- 1, snd (c_unlink env p (eprint (Perror p) w4)))
                else case guestfs_add_drive env p w4 of (r5, w5) \<Rightarrow>
                  if r5 = - 1 then Some (- 1, snd (c_unlink env p w5))
                  else Some (0, w5)))"
  using assms
  by (simp add: do_alloc_def guestfs_is_config_def c_open_def traced_def Let_def)

lemma not_past_open:
  assumes "\<not> (length argv = 2 \<and> fst (parse_size (argv ! 1) 0 w) = 0 \<and> is_config env
             \<and> open_ok env)"
  shows "fst (do_sparse env argv w) = - 1"
    and "\<exists>w'. do_alloc have_posix_fallocate env argv w = Some (- 1, w')"
  using assms parse_size_cases[of "argv ! 1" 0 w]
  by (auto simp: do_sparse_def do_alloc_def guestfs_is_config_def c_open_def Let_def)

text \<open>
  Both handlers return 0 or \<open>-1\<close>, and \<open>-1\<close> with no file-system call when the number of
  arguments is not two.
\<close>

lemma wrong_argc:
  assumes "length argv \<noteq> 2"
  shows "do_alloc have_posix_fallocate env argv w = Some (- 1, eprint UsageAlloc w)"
    and "do_sparse env argv w = (- 1, eprint UsageSparse w)"
  using assms by (simp_all add: do_alloc_def do_sparse_def)

lemma do_sparse_returns:
  "fst (do_sparse env argv w) = 0 \<or> fst (do_sparse env argv w) = - 1"
proof (cases "length argv = 2 \<and> fst (parse_size (argv ! 1) 0 w) = 0 \<and> is_config env \<and> open_ok env")
  case True
  then have h: "length argv = 2" "fst (parse_size (argv ! 1) 0 w) = 0" "is_config env" "open_ok env"
    by blast+
  from parse_size_ok[OF h(2)] obtain sz where ps: "parse_size (argv ! 1) 0 w = (0, sz, w)" ..
  show ?thesis
    unfolding do_sparse_after_open[OF h(1) ps h(3,4)] Let_def
    by (simp split: prod.splits)
next
  case False
  then show ?thesis by (simp only: not_past_open(1) simp_thms)
qed

lemma do_alloc_returns:
  assumes "do_alloc have_posix_fallocate env argv w = Some (r, w')"
  shows "r = 0 \<or> r = - 1"
proof (cases "length argv = 2 \<and> fst (parse_size (argv ! 1) 0 w) = 0 \<and> is_config env \<and> open_ok env")
  case True
  then have h: "length argv = 2" "fst (parse_size (argv ! 1) 0 w) = 0" "is_config env" "open_ok env"
    by blast+
  from parse_size_ok[OF h(2)] obtain sz where ps: "parse_size (argv ! 1) 0 w = (0, sz, w)" ..
  show ?thesis
    using assms unfolding do_alloc_after_open[OF h(1) ps h(3,4)] Let_def
    by (auto split: prod.splits option.splits bool.splits if_splits)
next
  case False
  from not_past_open(2)[OF this, of have_posix_fallocate] assms show ?thesis by auto
qed

lemma do_alloc_fallocate_build_returns:
  assumes "length argv = 2" and "parse_size (argv ! 1) 0 w = (0, sz, w)"
    and "is_config env" and "open_ok env"
  shows "\<exists>r w'. do_alloc True env argv w = Some (r, w')"
  unfolding do_alloc_after_open[OF assms] Let_def
  by (auto split: prod.splits if_splits)

subsection \<open>The write loop\<close>

text \<open>
  One turn of the loop: the count asked for is the smaller of \<open>remaining\<close> and \<open>BUFSIZ\<close>,
  and \<open>remaining\<close> goes down by what \<^verbatim>\<open>write\<close> returned.
\<close>

lemma write_loop_step:
  assumes "0 < remaining"
    and "c_write env f (if unat remaining > BUFSIZ then BUFSIZ else unat remaining) w = (r, f1, w1)"
    and "r \<noteq> - 1"
  shows "write_loop env p f remaining w = write_loop env p f1 (remaining - word_of_int r) w1"
  using assms by (subst write_loop.simps) (simp add: Let_def)

lemma unat_sub_written:
  fixes remaining :: size_t
  assumes "k \<le> unat remaining"
  shows "unat (remaining - word_of_int (int k)) = unat remaining - k"
proof -
  have "unat remaining < 2 ^ 64" using unsigned_less[of remaining, where 'a = nat] by simp
  with assms have lt: "k < 2 ^ 64" by simp
  have k: "unat (word_of_nat k :: size_t) = k" using lt by (simp add: unat_of_nat)
  have "(word_of_nat k :: size_t) \<le> remaining"
    using assms k by (simp add: word_le_nat_alt)
  then have "unat (remaining - word_of_nat k) = unat remaining - unat (word_of_nat k :: size_t)"
    by (rule unat_sub)
  with k show ?thesis by simp
qed

lemma write_loop_gives_up:
  assumes "write_loop env p f remaining w = Some res"
  shows "\<not> fst res \<longrightarrow>
     fs_trace (snd (snd res)) \<noteq> [] \<and> last (fs_trace (snd (snd res))) = OpUnlink p
     \<and> (unlink_ok env \<longrightarrow> files (snd (snd res)) p = None)"
proof (induction env p f remaining w res rule: write_loop.raw_induct)
  case (1 loop env p f remaining w res)
  define n where "n = (if unat remaining > BUFSIZ then BUFSIZ else unat remaining)"
  obtain r f1 w1 where cw: "c_write env f n w = (r, f1, w1)"
    by (cases "c_write env f n w") auto
  have body: "(if remaining > 0 then
        (if r = - 1 then
           Some (False, f1,
             snd (c_unlink env p (snd (c_close env f1 (eprint (Perror ''write'') w1)))))
         else loop env p f1 (remaining - word_of_int r) w1)
      else Some (True, f, w)) = Some res"
    using "1.hyps" cw unfolding n_def by (simp only: Let_def prod.case)
  show ?case
  proof (cases "remaining > 0")
    case False
    with body show ?thesis by auto
  next
    case True
    show ?thesis
    proof (cases "r = - 1")
      case True
      with \<open>remaining > 0\<close> body
      have "res = (False, f1,
          snd (c_unlink env p (snd (c_close env f1 (eprint (Perror ''write'') w1)))))"
        by simp
      then show ?thesis by (simp add: cleanup_trace cleanup_files)
    next
      case False
      with \<open>remaining > 0\<close> body
      have "loop env p f1 (remaining - word_of_int r) w1 = Some res" by simp
      then show ?thesis by (rule "1.IH")
    qed
  qed
qed fact

text \<open>The loop ends when no \<^verbatim>\<open>write\<close> returns 0.\<close>

lemma write_loop_returns:
  assumes progress: "\<forall>t. write_room env t \<noteq> Some 0"
  shows "\<exists>res. write_loop env p f remaining w = Some res"
proof (induction "unat remaining" arbitrary: f remaining w rule: less_induct)
  case less
  define n where "n = (if unat remaining > BUFSIZ then BUFSIZ else unat remaining)"
  show ?case
  proof (cases "remaining > 0")
    case False
    then have "write_loop env p f remaining w = Some (True, f, w)"
      by (subst write_loop.simps) simp
    then show ?thesis by (rule exI)
  next
    case True
    then have pos_n: "0 < n" "n \<le> unat remaining"
      by (simp_all add: n_def BUFSIZ_def word_greater_zero_iff unat_gt_0)
    show ?thesis
    proof (cases "write_room env (length (fs_trace w))")
      case None
      then have "c_write env f n w = (- 1, f, traced (OpWrite (fd_path f) n) w)"
        by (rule c_write_fail)
      with True have "write_loop env p f remaining w =
          Some (False, f, snd (c_unlink env p (snd (c_close env f
            (eprint (Perror ''write'') (traced (OpWrite (fd_path f) n) w))))))"
        unfolding n_def by (subst write_loop.simps) (simp add: Let_def)
      then show ?thesis by (rule exI)
    next
      case (Some m)
      define k where "k = min m n"
      from progress Some have "m \<noteq> 0" by metis
      with pos_n have k: "0 < k" "k \<le> unat remaining" by (simp_all add: k_def)
      from c_write_Some[OF Some, of f n] obtain f1 w1 where
        cw: "c_write env f n w = (int k, f1, w1)" unfolding k_def by blast
      have "unat (remaining - word_of_int (int k)) = unat remaining - k"
        using k(2) by (rule unat_sub_written)
      with k have "unat (remaining - word_of_int (int k)) < unat remaining" by simp
      from less[OF this] obtain res where
        "write_loop env p f1 (remaining - word_of_int (int k)) w1 = Some res" by blast
      moreover have "write_loop env p f remaining w =
          write_loop env p f1 (remaining - word_of_int (int k)) w1"
        using True cw unfolding n_def by (subst write_loop.simps) (simp add: Let_def)
      ultimately have "write_loop env p f remaining w = Some res" by (simp only:)
      then show ?thesis by (rule exI)
    qed
  qed
qed

lemma do_alloc_returns_if_writes_progress:
  assumes "\<forall>t. write_room env t \<noteq> Some 0"
  shows "\<exists>r w'. do_alloc have_posix_fallocate env argv w = Some (r, w')"
proof (cases "length argv = 2 \<and> fst (parse_size (argv ! 1) 0 w) = 0 \<and> is_config env \<and> open_ok env")
  case True
  then have h: "length argv = 2" "fst (parse_size (argv ! 1) 0 w) = 0" "is_config env" "open_ok env"
    by blast+
  from parse_size_ok[OF h(2)] obtain sz where ps: "parse_size (argv ! 1) 0 w = (0, sz, w)" ..
  define w2 where "w2 = (traced (OpOpen (argv ! 0)) w)\<lparr>files := (files w)(argv ! 0 \<mapsto> [])\<rparr>"
  from write_loop_returns[OF assms] obtain res where
    "write_loop env (argv ! 0) \<lparr>fd_path = argv ! 0, fd_pos = 0\<rparr> (ucast sz) w2 = Some res"
    by blast
  then show ?thesis
    unfolding do_alloc_after_open[OF h(1) ps h(3,4)] Let_def w2_def
    by (auto split: prod.splits option.splits bool.splits if_splits)
next
  case False
  from not_past_open(2)[OF this] show ?thesis by blast
qed

subsection \<open>A closed configuration\<close>

text \<open>
  C5. With two arguments and a size that parses, when \<^verbatim>\<open>guestfs_is_config\<close> says that the
  configuration is closed, \<open>do_alloc\<close> (in either build) and \<open>do_sparse\<close> return \<open>-1\<close>
  and have made no file-system call: the trace of calls, the files and the drives are
  what they were.
\<close>

theorem config_closed_no_filesystem_call:
  assumes "length argv = 2" and "fst (parse_size (argv ! 1) 0 w) = 0"
    and "\<not> is_config env"
  shows "(\<exists>w'. do_alloc have_posix_fallocate env argv w = Some (- 1, w')
            \<and> fs_trace w' = fs_trace w \<and> files w' = files w \<and> drives w' = drives w)
       \<and> (\<exists>w'. do_sparse env argv w = (- 1, w')
            \<and> fs_trace w' = fs_trace w \<and> files w' = files w \<and> drives w' = drives w)"
proof -
  from parse_size_ok[OF assms(2)] obtain sz where "parse_size (argv ! 1) 0 w = (0, sz, w)" ..
  with assms(1,3) show ?thesis
    by (simp add: do_alloc_def do_sparse_def guestfs_is_config_def eprint_def)
qed

theorem config_closed_no_filesystem_call_witness:
  "(\<exists>w'. do_alloc True (env_ok\<lparr>is_config := False\<rparr>) [''f'', ''10''] world0 = Some (- 1, w')
      \<and> fs_trace w' = fs_trace world0 \<and> files w' = files world0 \<and> drives w' = drives world0)
   \<and> (\<exists>w'. do_sparse (env_ok\<lparr>is_config := False\<rparr>) [''f'', ''10''] world0 = (- 1, w')
      \<and> fs_trace w' = fs_trace world0 \<and> files w' = files world0 \<and> drives w' = drives world0)"
proof -
  have "fst (parse_size ([''f'', ''10''] ! 1) 0 world0) = 0"
    by (simp add: parse_defs)
  moreover have "\<not> is_config (env_ok\<lparr>is_config := False\<rparr>)" by simp
  ultimately show ?thesis
    by (intro config_closed_no_filesystem_call) simp_all
qed

subsection \<open>Failures after the file is open\<close>

text \<open>
  C6 as stated, that no file remains after any failure, does not hold: the
  handlers ignore what \<^verbatim>\<open>unlink\<close> returns. Here \<^verbatim>\<open>guestfs_add_drive\<close> fails after the
  sparse file was written and closed, \<^verbatim>\<open>unlink\<close> fails too, \<open>do_sparse\<close> returns \<open>-1\<close> and
  the file of 512 bytes is still there.
\<close>

theorem sparse_unlink_failure_counterexample:
  "fst (do_sparse (env_ok\<lparr>add_drive_ok := False, unlink_ok := False\<rparr>) [''f'', ''1s''] world0) = - 1
   \<and> files (snd (do_sparse (env_ok\<lparr>add_drive_ok := False, unlink_ok := False\<rparr>)
        [''f'', ''1s''] world0)) ''f'' = Some (replicate 512 0)"
proof -
  have "replicate (Suc 511) (0::byte) = 0 # replicate 511 0" by (rule replicate_Suc)
  then have "replicate 512 (0::byte) = 0 # replicate 511 0" by simp
  then show ?thesis by (simp add: run_defs replicate_append_same)
qed

lemma do_sparse_failure:
  assumes "length argv = 2" and "parse_size (argv ! 1) 0 w = (0, sz, w)"
    and "is_config env" and "open_ok env" and "do_sparse env argv w = (- 1, w')"
  shows "fs_trace w' \<noteq> [] \<and> last (fs_trace w') = OpUnlink (argv ! 0)
       \<and> (unlink_ok env \<longrightarrow> files w' (argv ! 0) = None)"
  using assms(5) unfolding do_sparse_after_open[OF assms(1-4)] Let_def
  by (auto simp: cleanup_trace cleanup_files unlink_trace unlink_files guestfs_add_drive_def
      split: prod.splits if_splits)

lemma close_add_drive_failure:
  assumes "(case c_close env f3 w3 of (r4, w4) \<Rightarrow>
                if r4 = - 1 then Some (- 1, snd (c_unlink env p (eprint (Perror p) w4)))
                else case guestfs_add_drive env p w4 of (r5, w5) \<Rightarrow>
                  if r5 = - 1 then Some (- 1, snd (c_unlink env p w5))
                  else Some (0, w5)) = Some (- 1 :: int, w')"
  shows "fs_trace w' \<noteq> [] \<and> last (fs_trace w') = OpUnlink p
       \<and> (unlink_ok env \<longrightarrow> files w' p = None)"
  using assms
  by (auto simp: unlink_trace unlink_files guestfs_add_drive_def split: prod.splits if_splits)

lemma do_alloc_failure:
  assumes "length argv = 2" and "parse_size (argv ! 1) 0 w = (0, sz, w)"
    and "is_config env" and "open_ok env"
    and "do_alloc have_posix_fallocate env argv w = Some (- 1, w')"
  shows "fs_trace w' \<noteq> [] \<and> last (fs_trace w') = OpUnlink (argv ! 0)
       \<and> (unlink_ok env \<longrightarrow> files w' (argv ! 0) = None)"
proof -
  define p where "p = argv ! 0"
  define f where "f = \<lparr>fd_path = p, fd_pos = 0\<rparr>"
  define w2 where "w2 = (traced (OpOpen p) w)\<lparr>files := (files w)(p \<mapsto> [])\<rparr>"
  define step where "step =
     (if have_posix_fallocate then
        (case posix_fallocate env f sz w2 of (e, w3) \<Rightarrow>
           if e = - 1 then
             Some (False, f, snd (c_unlink env p
               (snd (c_close env f (eprint (Perror ''fallocate'') w3)))))
           else Some (True, f, w3))
      else write_loop env p f (ucast sz) w2)"
  have run: "(case step of
           None \<Rightarrow> None
         | Some (False, f3, w3) \<Rightarrow> Some (- 1, w3)
         | Some (True, f3, w3) \<Rightarrow>
             (case c_close env f3 w3 of (r4, w4) \<Rightarrow>
                if r4 = - 1 then Some (- 1, snd (c_unlink env p (eprint (Perror p) w4)))
                else case guestfs_add_drive env p w4 of (r5, w5) \<Rightarrow>
                  if r5 = - 1 then Some (- 1, snd (c_unlink env p w5))
                  else Some (0, w5))) = Some (- 1 :: int, w')"
    using assms(5)
    unfolding do_alloc_after_open[OF assms(1-4)] Let_def step_def w2_def f_def p_def .
  then obtain b f3 w3 where st: "step = Some (b, f3, w3)"
    by (cases step) auto
  show ?thesis unfolding p_def[symmetric]
  proof (cases b)
    case True
    with run st have "(case c_close env f3 w3 of (r4, w4) \<Rightarrow>
                if r4 = - 1 then Some (- 1, snd (c_unlink env p (eprint (Perror p) w4)))
                else case guestfs_add_drive env p w4 of (r5, w5) \<Rightarrow>
                  if r5 = - 1 then Some (- 1, snd (c_unlink env p w5))
                  else Some (0, w5)) = Some (- 1 :: int, w')"
      by simp
    then show "fs_trace w' \<noteq> [] \<and> last (fs_trace w') = OpUnlink p
       \<and> (unlink_ok env \<longrightarrow> files w' p = None)"
      by (rule close_add_drive_failure)
  next
    case False
    with run st have w': "w' = w3" by simp
    have nf: "\<not> have_posix_fallocate"
    proof
      assume "have_posix_fallocate"
      with st False posix_fallocate_not_minus1[of env f sz w2] show False
        by (auto simp: step_def split: prod.splits if_splits)
    qed
    with st False have "write_loop env p f (ucast sz) w2 = Some (False, f3, w3)"
      by (simp add: step_def)
    from write_loop_gives_up[OF this] w'
    show "fs_trace w' \<noteq> [] \<and> last (fs_trace w') = OpUnlink p
       \<and> (unlink_ok env \<longrightarrow> files w' p = None)"
      by simp
  qed
qed

text \<open>What a return value of 0 says about the calls made.\<close>

lemma c_write_trace:
  assumes "c_write env f n w = (r, f1, w1)"
  shows "fs_trace w1 = fs_trace w @ [OpWrite (fd_path f) n] \<and> fd_path f1 = fd_path f
       \<and> (r = - 1 \<longleftrightarrow> write_room env (length (fs_trace w)) = None)"
  using assms by (auto simp: c_write_def traced_def Let_def split: option.splits if_splits)

lemma write_loop_writes_answered:
  assumes "write_loop env p f remaining w = Some res"
  shows "fst res \<longrightarrow>
     (\<exists>ns. fs_trace (snd (snd res)) = fs_trace w @ map (OpWrite (fd_path f)) ns
        \<and> (\<forall>i<length ns. write_room env (length (fs_trace w) + i) \<noteq> None))
     \<and> fd_path (fst (snd res)) = fd_path f"
proof (induction env p f remaining w res rule: write_loop.raw_induct)
  case (1 loop env p f remaining w res)
  define n where "n = (if unat remaining > BUFSIZ then BUFSIZ else unat remaining)"
  obtain r f1 w1 where cw: "c_write env f n w = (r, f1, w1)"
    by (cases "c_write env f n w") auto
  note ct = c_write_trace[OF cw]
  have body: "(if remaining > 0 then
        (if r = - 1 then
           Some (False, f1,
             snd (c_unlink env p (snd (c_close env f1 (eprint (Perror ''write'') w1)))))
         else loop env p f1 (remaining - word_of_int r) w1)
      else Some (True, f, w)) = Some res"
    using "1.hyps" cw unfolding n_def by (simp only: Let_def prod.case)
  show ?case
  proof (intro impI)
    assume ok: "fst res"
    show "(\<exists>ns. fs_trace (snd (snd res)) = fs_trace w @ map (OpWrite (fd_path f)) ns
        \<and> (\<forall>i<length ns. write_room env (length (fs_trace w) + i) \<noteq> None))
     \<and> fd_path (fst (snd res)) = fd_path f"
    proof (cases "remaining > 0")
      case False
      with body have res: "res = (True, f, w)" by auto
      then have "fs_trace (snd (snd res)) = fs_trace w @ map (OpWrite (fd_path f)) []
          \<and> (\<forall>i<length ([]::nat list). write_room env (length (fs_trace w) + i) \<noteq> None)"
        by simp
      then have "\<exists>ns. fs_trace (snd (snd res)) = fs_trace w @ map (OpWrite (fd_path f)) ns
          \<and> (\<forall>i<length ns. write_room env (length (fs_trace w) + i) \<noteq> None)"
        by (rule exI)
      with res show ?thesis by simp
    next
      case True
      show ?thesis
      proof (cases "r = - 1")
        case True
        with \<open>remaining > 0\<close> body have "\<not> fst res" by auto
        with ok show ?thesis by simp
      next
        case False
        with \<open>remaining > 0\<close> body
        have rec: "loop env p f1 (remaining - word_of_int r) w1 = Some res" by simp
        from "1.IH"[OF rec, rule_format, OF ok] obtain ns where
          ih: "fs_trace (snd (snd res)) = fs_trace w1 @ map (OpWrite (fd_path f1)) ns"
            "\<forall>i<length ns. write_room env (length (fs_trace w1) + i) \<noteq> None"
            "fd_path (fst (snd res)) = fd_path f1"
          by (elim exE conjE)
        have ans: "write_room env (length (fs_trace w)) \<noteq> None" using ct False by simp
        have tr: "fs_trace (snd (snd res)) = fs_trace w @ map (OpWrite (fd_path f)) (n # ns)"
          using ih(1) ct by simp
        have all: "\<forall>i<length (n # ns). write_room env (length (fs_trace w) + i) \<noteq> None"
        proof (intro allI impI)
          fix i assume i: "i < length (n # ns)"
          show "write_room env (length (fs_trace w) + i) \<noteq> None"
          proof (cases i)
            case 0
            with ans show ?thesis by simp
          next
            case (Suc j)
            with i have "j < length ns" by simp
            with ih(2) have "write_room env (length (fs_trace w1) + j) \<noteq> None" by blast
            with ct Suc show ?thesis by simp
          qed
        qed
        from tr all have "\<exists>ns. fs_trace (snd (snd res)) = fs_trace w @ map (OpWrite (fd_path f)) ns
            \<and> (\<forall>i<length ns. write_room env (length (fs_trace w) + i) \<noteq> None)"
          by (intro exI[of _ "n # ns"] conjI)
        with ih(3) ct show ?thesis by simp
      qed
    qed
  qed
qed fact

lemma do_sparse_success:
  assumes "length argv = 2" and "parse_size (argv ! 1) 0 w = (0, sz, w)"
    and "is_config env" and "open_ok env" and "fst (do_sparse env argv w) = 0"
  shows "0 \<le> sint (sz - 1) \<and> lseek_ok env
       \<and> (\<exists>m>0. write_room env (length (fs_trace w) + 2) = Some m)
       \<and> close_ok env \<and> add_drive_ok env"
  using assms(5) unfolding do_sparse_after_open[OF assms(1-4)] Let_def
  by (auto simp: sys_defs Let_def split: if_splits option.splits)


lemma no_failed_write_in_trace:
  assumes "tr' = tr @ OpOpen p # map (OpWrite p) ns @ [OpClose p]"
    and "\<forall>j<length ns. write_room env (Suc (length tr) + j) \<noteq> None"
    and "tr' ! (length tr + i) = OpWrite p n"
    and "length tr + i < length tr'"
  shows "write_room env (length tr + i) \<noteq> None"
proof (cases i)
  case 0
  with assms(1,3) show ?thesis by simp
next
  case (Suc j)
  show ?thesis
  proof (cases "j < length ns")
    case True
    with assms(2) Suc show ?thesis by simp
  next
    case False
    with assms(1,4) Suc have "j = length ns" by simp
    with assms(1,3) Suc show ?thesis by (simp add: nth_append)
  qed
qed

lemma do_alloc_success:
  assumes "length argv = 2" and "parse_size (argv ! 1) 0 w = (0, sz, w)"
    and "is_config env" and "open_ok env"
    and "do_alloc have_posix_fallocate env argv w = Some (0, w')"
  shows "close_ok env \<and> add_drive_ok env
       \<and> (\<not> have_posix_fallocate \<longrightarrow>
            (\<exists>ns. fs_trace w' =
                 fs_trace w @ OpOpen (argv ! 0) # map (OpWrite (argv ! 0)) ns @ [OpClose (argv ! 0)]
               \<and> (\<forall>j<length ns. write_room env (Suc (length (fs_trace w)) + j) \<noteq> None)))"
proof -
  define p where "p = argv ! 0"
  define f where "f = \<lparr>fd_path = p, fd_pos = 0\<rparr>"
  define w2 where "w2 = (traced (OpOpen p) w)\<lparr>files := (files w)(p \<mapsto> [])\<rparr>"
  define step where "step =
     (if have_posix_fallocate then
        (case posix_fallocate env f sz w2 of (e, w3) \<Rightarrow>
           if e = - 1 then
             Some (False, f, snd (c_unlink env p
               (snd (c_close env f (eprint (Perror ''fallocate'') w3)))))
           else Some (True, f, w3))
      else write_loop env p f (ucast sz) w2)"
  have run: "(case step of
           None \<Rightarrow> None
         | Some (False, f3, w3) \<Rightarrow> Some (- 1, w3)
         | Some (True, f3, w3) \<Rightarrow>
             (case c_close env f3 w3 of (r4, w4) \<Rightarrow>
                if r4 = - 1 then Some (- 1, snd (c_unlink env p (eprint (Perror p) w4)))
                else case guestfs_add_drive env p w4 of (r5, w5) \<Rightarrow>
                  if r5 = - 1 then Some (- 1, snd (c_unlink env p w5))
                  else Some (0, w5))) = Some (0 :: int, w')"
    using assms(5)
    unfolding do_alloc_after_open[OF assms(1-4)] Let_def step_def w2_def f_def p_def .
  then obtain b f3 w3 where st: "step = Some (b, f3, w3)"
    by (cases step) auto
  from run st have b: b by (cases b) auto
  with run st have tail: "(case c_close env f3 w3 of (r4, w4) \<Rightarrow>
                if r4 = - 1 then Some (- 1, snd (c_unlink env p (eprint (Perror p) w4)))
                else case guestfs_add_drive env p w4 of (r5, w5) \<Rightarrow>
                  if r5 = - 1 then Some (- 1, snd (c_unlink env p w5))
                  else Some (0, w5)) = Some (0 :: int, w')"
    by simp
  then have ok: "close_ok env" "add_drive_ok env"
    and tr': "fs_trace w' = fs_trace w3 @ [OpClose (fd_path f3)]"
    by (auto simp: c_close_def guestfs_add_drive_def traced_def split: if_splits)
  have "\<exists>ns. fs_trace w' = fs_trace w @ OpOpen p # map (OpWrite p) ns @ [OpClose p]
         \<and> (\<forall>j<length ns. write_room env (Suc (length (fs_trace w)) + j) \<noteq> None)"
    if nf: "\<not> have_posix_fallocate"
  proof -
    from st nf b have wl: "write_loop env p f (ucast sz) w2 = Some (True, f3, w3)"
      by (simp add: step_def)
    from write_loop_writes_answered[OF wl] obtain ns where
      ns: "fs_trace w3 = fs_trace w2 @ map (OpWrite (fd_path f)) ns"
        "\<forall>i<length ns. write_room env (length (fs_trace w2) + i) \<noteq> None"
        "fd_path f3 = fd_path f"
      by auto
    have w2t: "fs_trace w2 = fs_trace w @ [OpOpen p]" by (simp add: w2_def traced_def)
    have "fs_trace w' = fs_trace w @ OpOpen p # map (OpWrite p) ns @ [OpClose p]"
      using tr' ns(1,3) w2t by (simp add: f_def)
    moreover have "\<forall>j<length ns. write_room env (Suc (length (fs_trace w)) + j) \<noteq> None"
      using ns(2) w2t by simp
    ultimately show ?thesis by blast
  qed
  with ok show ?thesis unfolding p_def by blast
qed

text \<open>
  C6, as amended. With two arguments, a size that parses, an open configuration and a
  successful \<^verbatim>\<open>open\<close>, every failure after it makes the handler call \<^verbatim>\<open>unlink\<close> on the path
  as its last file-system call and return \<open>-1\<close>; the file does not exist afterwards if
  that \<^verbatim>\<open>unlink\<close> succeeds, whose result is ignored.
  \<^item> \<open>do_sparse\<close>: a failed \<^verbatim>\<open>lseek\<close> (a negative offset, or refused), a one-byte \<^verbatim>\<open>write\<close>
    that fails or writes nothing, a failed \<^verbatim>\<open>close\<close>, a failed \<^verbatim>\<open>guestfs_add_drive\<close>.
  \<^item> \<open>do_alloc\<close> with \<^verbatim>\<open>posix_fallocate\<close>: a failed \<^verbatim>\<open>close\<close> or \<^verbatim>\<open>guestfs_add_drive\<close>.
  \<^item> \<open>do_alloc\<close> with the write loop: a \<^verbatim>\<open>write\<close> of the loop that failed (a \<^verbatim>\<open>write\<close> in
    the trace of calls which the environment answered with \<open>-1\<close>), a failed \<^verbatim>\<open>close\<close> or
    \<^verbatim>\<open>guestfs_add_drive\<close>; the command returns whenever no \<^verbatim>\<open>write\<close> returns 0.
  \<^item> Whenever a handler returns \<open>-1\<close> after \<^verbatim>\<open>open\<close> succeeded, the same holds.
  A failed \<^verbatim>\<open>posix_fallocate\<close> is not among these: see
  \<open>do_alloc_fallocate_failure_returns_0\<close> below.
\<close>

theorem failure_after_open_unlinks:
  assumes "length argv = 2" and "parse_size (argv ! 1) 0 w = (0, sz, w)"
    and "is_config env" and "open_ok env"
  shows "(sint (sz - 1) < 0 \<or> \<not> lseek_ok env
            \<or> write_room env (length (fs_trace w) + 2) = None
            \<or> write_room env (length (fs_trace w) + 2) = Some 0
            \<or> \<not> close_ok env \<or> \<not> add_drive_ok env \<longrightarrow>
          (\<exists>w'. do_sparse env argv w = (- 1, w')
             \<and> fs_trace w' \<noteq> [] \<and> last (fs_trace w') = OpUnlink (argv ! 0)
             \<and> (unlink_ok env \<longrightarrow> files w' (argv ! 0) = None)))
       \<and> (\<not> close_ok env \<or> \<not> add_drive_ok env \<longrightarrow>
          (\<exists>w'. do_alloc True env argv w = Some (- 1, w')
             \<and> fs_trace w' \<noteq> [] \<and> last (fs_trace w') = OpUnlink (argv ! 0)
             \<and> (unlink_ok env \<longrightarrow> files w' (argv ! 0) = None)))
       \<and> (\<forall>r w'. do_alloc False env argv w = Some (r, w')
            \<and> ((\<exists>i n. length (fs_trace w) + i < length (fs_trace w')
                    \<and> fs_trace w' ! (length (fs_trace w) + i) = OpWrite (argv ! 0) n
                    \<and> write_room env (length (fs_trace w) + i) = None)
                \<or> \<not> close_ok env \<or> \<not> add_drive_ok env) \<longrightarrow>
            r = - 1 \<and> fs_trace w' \<noteq> [] \<and> last (fs_trace w') = OpUnlink (argv ! 0)
            \<and> (unlink_ok env \<longrightarrow> files w' (argv ! 0) = None))
       \<and> ((\<forall>t. write_room env t \<noteq> Some 0) \<longrightarrow>
            (\<exists>r w'. do_alloc False env argv w = Some (r, w')))
       \<and> (\<forall>w'. do_alloc have_posix_fallocate env argv w = Some (- 1, w')
              \<or> do_sparse env argv w = (- 1, w') \<longrightarrow>
            fs_trace w' \<noteq> [] \<and> last (fs_trace w') = OpUnlink (argv ! 0)
            \<and> (unlink_ok env \<longrightarrow> files w' (argv ! 0) = None))"
proof (intro conjI)
  let ?U = "\<lambda>w'. fs_trace w' \<noteq> [] \<and> last (fs_trace w') = OpUnlink (argv ! 0)
            \<and> (unlink_ok env \<longrightarrow> files w' (argv ! 0) = None)"
  show "sint (sz - 1) < 0 \<or> \<not> lseek_ok env
            \<or> write_room env (length (fs_trace w) + 2) = None
            \<or> write_room env (length (fs_trace w) + 2) = Some 0
            \<or> \<not> close_ok env \<or> \<not> add_drive_ok env \<longrightarrow>
          (\<exists>w'. do_sparse env argv w = (- 1, w') \<and> ?U w')"
  proof
    assume bad: "sint (sz - 1) < 0 \<or> \<not> lseek_ok env
            \<or> write_room env (length (fs_trace w) + 2) = None
            \<or> write_room env (length (fs_trace w) + 2) = Some 0
            \<or> \<not> close_ok env \<or> \<not> add_drive_ok env"
    have "fst (do_sparse env argv w) \<noteq> 0"
    proof
      assume "fst (do_sparse env argv w) = 0"
      from do_sparse_success[OF assms this] bad show False by auto
    qed
    with do_sparse_returns[of env argv w] have "fst (do_sparse env argv w) = - 1" by simp
    then have eq: "do_sparse env argv w = (- 1, snd (do_sparse env argv w))"
      by (metis prod.collapse)
    from do_sparse_failure[OF assms eq] eq
    show "\<exists>w'. do_sparse env argv w = (- 1, w') \<and> ?U w'" by blast
  qed
  show "\<not> close_ok env \<or> \<not> add_drive_ok env \<longrightarrow>
          (\<exists>w'. do_alloc True env argv w = Some (- 1, w') \<and> ?U w')"
  proof
    assume bad: "\<not> close_ok env \<or> \<not> add_drive_ok env"
    from do_alloc_fallocate_build_returns[OF assms] obtain r w' where
      eq: "do_alloc True env argv w = Some (r, w')" by blast
    have "r \<noteq> 0"
    proof
      assume "r = 0"
      with eq do_alloc_success[OF assms, of True w'] bad show False by simp
    qed
    with do_alloc_returns[OF eq] have r: "r = - 1" by simp
    with eq do_alloc_failure[OF assms, of True w']
    show "\<exists>w'. do_alloc True env argv w = Some (- 1, w') \<and> ?U w'" by blast
  qed
  show "\<forall>r w'. do_alloc False env argv w = Some (r, w')
            \<and> ((\<exists>i n. length (fs_trace w) + i < length (fs_trace w')
                    \<and> fs_trace w' ! (length (fs_trace w) + i) = OpWrite (argv ! 0) n
                    \<and> write_room env (length (fs_trace w) + i) = None)
                \<or> \<not> close_ok env \<or> \<not> add_drive_ok env) \<longrightarrow>
            r = - 1 \<and> ?U w'"
  proof (intro allI impI, elim conjE)
    fix r w'
    assume eq: "do_alloc False env argv w = Some (r, w')"
      and bad: "(\<exists>i n. length (fs_trace w) + i < length (fs_trace w')
                    \<and> fs_trace w' ! (length (fs_trace w) + i) = OpWrite (argv ! 0) n
                    \<and> write_room env (length (fs_trace w) + i) = None)
                \<or> \<not> close_ok env \<or> \<not> add_drive_ok env"
    have "r \<noteq> 0"
    proof
      assume "r = 0"
      with eq do_alloc_success[OF assms, of False w'] obtain ns where
        ok: "close_ok env" "add_drive_ok env"
        and tr: "fs_trace w' =
            fs_trace w @ OpOpen (argv ! 0) # map (OpWrite (argv ! 0)) ns @ [OpClose (argv ! 0)]"
        and ans: "\<forall>j<length ns. write_room env (Suc (length (fs_trace w)) + j) \<noteq> None"
        by auto
      from bad ok obtain i n where
        i: "length (fs_trace w) + i < length (fs_trace w')"
          "fs_trace w' ! (length (fs_trace w) + i) = OpWrite (argv ! 0) n"
          "write_room env (length (fs_trace w) + i) = None"
        by blast
      from no_failed_write_in_trace[OF tr ans i(2,1)] i(3) show False by simp
    qed
    with do_alloc_returns[OF eq] have r: "r = - 1" by simp
    with eq do_alloc_failure[OF assms, of False w'] show "r = - 1 \<and> ?U w'" by simp
  qed
  show "(\<forall>t. write_room env t \<noteq> Some 0) \<longrightarrow>
            (\<exists>r w'. do_alloc False env argv w = Some (r, w'))"
    using do_alloc_returns_if_writes_progress by blast
  show "\<forall>w'. do_alloc have_posix_fallocate env argv w = Some (- 1, w')
              \<or> do_sparse env argv w = (- 1, w') \<longrightarrow> ?U w'"
    using do_alloc_failure[OF assms] do_sparse_failure[OF assms] by blast
qed

theorem failure_after_open_unlinks_witness:
  "(\<exists>w'. do_sparse (env_ok\<lparr>add_drive_ok := False\<rparr>) [''f'', ''1s''] world0 = (- 1, w')
      \<and> last (fs_trace w') = OpUnlink ''f'' \<and> files w' ''f'' = None)
   \<and> (\<exists>w'. do_alloc True (env_ok\<lparr>close_ok := False\<rparr>) [''f'', ''1''] world0 = Some (- 1, w')
      \<and> last (fs_trace w') = OpUnlink ''f'' \<and> files w' ''f'' = None)
   \<and> (\<exists>w'. do_alloc False (env_ok\<lparr>write_room := \<lambda>t. if t = 2 then None else Some 5000\<rparr>)
          [''f'', ''10''] world0 = Some (- 1, w')
      \<and> fs_trace w' = [OpOpen ''f'', OpWrite ''f'' 8192, OpWrite ''f'' 5240, OpClose ''f'',
           OpUnlink ''f'']
      \<and> files w' ''f'' = None)"
proof (intro conjI)
  let ?E1 = "env_ok\<lparr>add_drive_ok := False\<rparr>"
  let ?E2 = "env_ok\<lparr>close_ok := False\<rparr>"
  let ?E3 = "env_ok\<lparr>write_room := \<lambda>t. if t = 2 then None else Some 5000\<rparr>"
  have p1: "parse_size ([''f'', ''1s''] ! 1) 0 world0 = (0, 512, world0)"
    and p2: "parse_size ([''f'', ''1''] ! 1) 0 world0 = (0, 1024, world0)"
    and p3: "parse_size ([''f'', ''10''] ! 1) 0 world0 = (0, 10240, world0)"
    by (simp_all add: parse_defs)
  have e1: "is_config ?E1" "open_ok ?E1" "unlink_ok ?E1" "\<not> add_drive_ok ?E1"
    and e2: "is_config ?E2" "open_ok ?E2" "unlink_ok ?E2" "\<not> close_ok ?E2"
    and e3: "is_config ?E3" "open_ok ?E3" "unlink_ok ?E3"
    by (simp_all add: env_ok_def)
  from failure_after_open_unlinks[of "[''f'', ''1s'']" world0 512 ?E1 True, OF _ p1 e1(1,2)]
    e1(3,4)
  show "\<exists>w'. do_sparse ?E1 [''f'', ''1s''] world0 = (- 1, w')
      \<and> last (fs_trace w') = OpUnlink ''f'' \<and> files w' ''f'' = None"
    by auto
  from failure_after_open_unlinks[of "[''f'', ''1'']" world0 1024 ?E2 True, OF _ p2 e2(1,2)]
    e2(3,4)
  show "\<exists>w'. do_alloc True ?E2 [''f'', ''1''] world0 = Some (- 1, w')
      \<and> last (fs_trace w') = OpUnlink ''f'' \<and> files w' ''f'' = None"
    by auto
  obtain r w' where ev: "do_alloc False ?E3 [''f'', ''10''] world0 = Some (r, w')"
    and tr: "fs_trace w' = [OpOpen ''f'', OpWrite ''f'' 8192, OpWrite ''f'' 5240, OpClose ''f'',
           OpUnlink ''f'']"
    by (simp add: run_defs write_loop.simps BUFSIZ_def)
  have bad: "\<exists>i n. length (fs_trace world0) + i < length (fs_trace w')
      \<and> fs_trace w' ! (length (fs_trace world0) + i) = OpWrite ([''f'', ''10''] ! 0) n
      \<and> write_room ?E3 (length (fs_trace world0) + i) = None"
    by (intro exI[of _ 2] exI[of _ 5240]) (simp add: tr world0_def env_ok_def)
  from failure_after_open_unlinks[of "[''f'', ''10'']" world0 10240 ?E3 True, OF _ p3 e3(1,2)]
    ev bad e3(3)
  have "r = - 1 \<and> files w' ''f'' = None" by auto
  with ev tr show "\<exists>w'. do_alloc False ?E3 [''f'', ''10''] world0 = Some (- 1, w')
      \<and> fs_trace w' = [OpOpen ''f'', OpWrite ''f'' 8192, OpWrite ''f'' 5240, OpClose ''f'',
           OpUnlink ''f'']
      \<and> files w' ''f'' = None"
    by blast
qed

subsection \<open>Return values\<close>

text \<open>
  In the build with \<^verbatim>\<open>HAVE_POSIX_FALLOCATE\<close> the result of \<^verbatim>\<open>posix_fallocate\<close> has no effect on what
  \<open>do_alloc\<close> returns.
\<close>

lemma do_alloc_fallocate_result_unused:
  assumes "length argv = 2" and "parse_size (argv ! 1) 0 w = (0, sz, w)"
    and "is_config env" and "open_ok env" and "close_ok env" and "add_drive_ok env"
  shows "\<exists>w'. do_alloc True env argv w = Some (0, w') \<and> drives w' = drives w @ [argv ! 0]"
proof -
  obtain e w3 where pf: "posix_fallocate env \<lparr>fd_path = argv ! 0, fd_pos = 0\<rparr> sz
      ((traced (OpOpen (argv ! 0)) w)\<lparr>files := (files w)(argv ! 0 \<mapsto> [])\<rparr>) = (e, w3)"
    by (cases "posix_fallocate env \<lparr>fd_path = argv ! 0, fd_pos = 0\<rparr> sz
      ((traced (OpOpen (argv ! 0)) w)\<lparr>files := (files w)(argv ! 0 \<mapsto> [])\<rparr>)") auto
  have e: "e \<noteq> - 1" using posix_fallocate_not_minus1[of env _ sz] pf by (metis fst_conv)
  have dr: "drives w3 = drives w"
    using pf by (auto simp: posix_fallocate_def traced_def Let_def split: if_splits)
  show ?thesis
    unfolding do_alloc_after_open[OF assms(1-4)] Let_def pf
    using e dr assms(5,6) by (simp add: c_close_def guestfs_add_drive_def traced_def)
qed

text \<open>
  C7. The claim is that a handler returns \<open>-1\<close> on every failure. In the build with
  \<^verbatim>\<open>HAVE_POSIX_FALLOCATE\<close>, \<open>do_alloc\<close> compares the result of \<^verbatim>\<open>posix_fallocate\<close> with \<open>-1\<close>,
  but \<^verbatim>\<open>posix_fallocate\<close> reports a failure by returning the error number
  (\<open>posix_fallocate_not_minus1\<close>), so the branch that reports the failure is never taken
  (\<open>do_alloc_fallocate_result_unused\<close>). With a full disk (\<^verbatim>\<open>ENOSPC\<close>) the command \<open>alloc f 10\<close>
  returns 0, adds the drive and leaves an empty file where 10240 bytes were asked for.
\<close>

theorem do_alloc_fallocate_failure_returns_0:
  "\<exists>w'. do_alloc True (env_ok\<lparr>fallocate_errno := ENOSPC\<rparr>) [''f'', ''10''] world0 = Some (0, w')
     \<and> fs_trace w' = [OpOpen ''f'', OpFallocate ''f'' 10240, OpClose ''f'']
     \<and> files w' ''f'' = Some [] \<and> drives w' = [''f''] \<and> stderr w' = []"
  by (simp add: run_defs ENOSPC_def)

subsection \<open>The sparse file\<close>

text \<open>
  C8 as stated, that the created file is deleted when the size is 0, does not hold, for
  the same reason as above: when \<^verbatim>\<open>unlink\<close> fails, \<open>do_sparse\<close> returns \<open>-1\<close>
  and the empty file is still there.
\<close>

theorem sparse_size_zero_counterexample:
  "fst (do_sparse (env_ok\<lparr>unlink_ok := False\<rparr>) [''f'', ''0''] world0) = - 1
   \<and> files (snd (do_sparse (env_ok\<lparr>unlink_ok := False\<rparr>) [''f'', ''0''] world0)) ''f'' = Some []"
  by (simp add: run_defs)

text \<open>
  C8, as amended. After \<^verbatim>\<open>open\<close>, \<open>do_sparse\<close> seeks to offset \<open>size - 1\<close> and writes one
  zero byte there: when the size is positive and every call succeeds, the calls are
  \<^verbatim>\<open>open\<close>, \<^verbatim>\<open>lseek\<close> to \<open>size - 1\<close>, a \<^verbatim>\<open>write\<close> of one byte and \<^verbatim>\<open>close\<close>, and the file
  holds exactly \<open>size\<close> zero bytes. When the size is 0 the offset is \<open>-1\<close>, \<^verbatim>\<open>lseek\<close>
  fails, \<open>do_sparse\<close> reports it, closes the file, calls \<^verbatim>\<open>unlink\<close> on it and returns
  \<open>-1\<close>; the file is gone if that \<^verbatim>\<open>unlink\<close> succeeds.
\<close>

theorem do_sparse_seek_write:
  assumes "length argv = 2" and "parse_size (argv ! 1) 0 w = (0, sz, w)"
    and "is_config env" and "open_ok env"
  shows "(0 < sint sz \<and> lseek_ok env
            \<and> (\<exists>m>0. write_room env (length (fs_trace w) + 2) = Some m)
            \<and> close_ok env \<and> add_drive_ok env \<longrightarrow>
          (\<exists>w'. do_sparse env argv w = (0, w')
             \<and> fs_trace w' = fs_trace w @ [OpOpen (argv ! 0), OpLseek (argv ! 0) (sint sz - 1),
                   OpWrite (argv ! 0) 1, OpClose (argv ! 0)]
             \<and> files w' (argv ! 0) = Some (replicate (nat (sint sz)) 0)
             \<and> drives w' = drives w @ [argv ! 0]))
       \<and> (sz = 0 \<longrightarrow>
          (\<exists>w'. do_sparse env argv w = (- 1, w')
             \<and> fs_trace w' = fs_trace w @ [OpOpen (argv ! 0), OpLseek (argv ! 0) (- 1),
                   OpClose (argv ! 0), OpUnlink (argv ! 0)]
             \<and> stderr w' = stderr w @ [Perror ''lseek'']
             \<and> (unlink_ok env \<longrightarrow> files w' (argv ! 0) = None)))"
proof (intro conjI impI)
  assume a: "0 < sint sz \<and> lseek_ok env
      \<and> (\<exists>m>0. write_room env (length (fs_trace w) + 2) = Some m)
      \<and> close_ok env \<and> add_drive_ok env"
  then obtain m where m: "0 < m" "write_room env (Suc (Suc (length (fs_trace w)))) = Some m"
    by auto
  have sp: "sint (sz - 1) = sint sz - 1" using a by (simp add: sint_pred)
  have rp: "replicate (nat (sint sz - 1)) (0::byte) @ [0] = replicate (nat (sint sz)) 0"
  proof -
    from a have "0 < sint sz" by simp
    then have "nat (sint sz) = Suc (nat (sint sz - 1))" by linarith
    then show ?thesis by (simp add: replicate_append_same)
  qed
  show "\<exists>w'. do_sparse env argv w = (0, w')
             \<and> fs_trace w' = fs_trace w @ [OpOpen (argv ! 0), OpLseek (argv ! 0) (sint sz - 1),
                   OpWrite (argv ! 0) 1, OpClose (argv ! 0)]
             \<and> files w' (argv ! 0) = Some (replicate (nat (sint sz)) 0)
             \<and> drives w' = drives w @ [argv ! 0]"
    using a m rp unfolding do_sparse_after_open[OF assms]
    by (simp add: sys_defs Let_def sp min_def)
next
  assume z: "sz = 0"
  show "\<exists>w'. do_sparse env argv w = (- 1, w')
             \<and> fs_trace w' = fs_trace w @ [OpOpen (argv ! 0), OpLseek (argv ! 0) (- 1),
                   OpClose (argv ! 0), OpUnlink (argv ! 0)]
             \<and> stderr w' = stderr w @ [Perror ''lseek'']
             \<and> (unlink_ok env \<longrightarrow> files w' (argv ! 0) = None)"
    unfolding do_sparse_after_open[OF assms] z
    by (simp add: sys_defs Let_def)
qed

theorem do_sparse_seek_write_witness:
  "(\<exists>w'. do_sparse env_ok [''f'', ''4''] world0 = (0, w')
      \<and> fs_trace w' = [OpOpen ''f'', OpLseek ''f'' 4095, OpWrite ''f'' 1, OpClose ''f'']
      \<and> files w' ''f'' = Some (replicate 4096 0) \<and> drives w' = [''f''])
   \<and> (\<exists>w'. do_sparse env_ok [''f'', ''0''] world0 = (- 1, w')
      \<and> fs_trace w' = [OpOpen ''f'', OpLseek ''f'' (- 1), OpClose ''f'', OpUnlink ''f'']
      \<and> stderr w' = [Perror ''lseek''] \<and> files w' ''f'' = None)"
proof -
  have p4: "parse_size ([''f'', ''4''] ! 1) 0 world0 = (0, 4096, world0)"
    by (simp add: parse_defs)
  have p0: "parse_size ([''f'', ''0''] ! 1) 0 world0 = (0, 0, world0)"
    by (simp add: parse_defs)
  have e: "is_config env_ok" "open_ok env_ok" by (simp_all add: env_ok_def)
  from do_sparse_seek_write[of "[''f'', ''4'']" world0 4096 env_ok, OF _ p4 e]
    do_sparse_seek_write[of "[''f'', ''0'']" world0 0 env_ok, OF _ p0 e]
  show ?thesis by (simp add: env_ok_def world0_def)
qed

subsection \<open>The write loop of the build without \<^verbatim>\<open>posix_fallocate\<close>\<close>




text \<open>The whole command in that build, with short writes: \<open>alloc f 10\<close>.\<close>

lemma do_alloc_fallback_example:
  "\<exists>w'. do_alloc False env_ok [''f'', ''10''] world0 = Some (0, w')
     \<and> fs_trace w' = [OpOpen ''f'', OpWrite ''f'' 8192, OpWrite ''f'' 5240, OpWrite ''f'' 240,
          OpClose ''f'']
     \<and> map_option length (files w' ''f'') = Some 10240 \<and> drives w' = [''f'']"
  by (simp add: run_defs write_loop.simps BUFSIZ_def)

end
